theory Spec2Isabelle
  imports Complex_Main
begin

section \<open>JavaScript values\<close>

text \<open>
  Records are plain data: what \<^verbatim>\<open>JSON.parse\<close> builds and what callers pass as
  conditions, updates and input. A number is the rational it denotes, or one of the three
  non-finite values; rounding of doubles is not modelled and no statement below depends on
  it. A Date is its time value in milliseconds since the epoch, or invalid. An object is
  its list of own properties in enumeration order (keys are distinct). It is a plain
  object, so besides its own properties it inherits the members of \<^verbatim>\<open>Object.prototype\<close>:
  \<open>JBuiltin name\<close> is the value of \<^verbatim>\<open>Object.prototype[name]\<close>, a built-in function, or
  for the name \<^verbatim>\<open>__proto__\<close> the prototype object itself. A string is its list of code
  units (each below 256).
\<close>

datatype jsnum = Fin rat | PosInf | NegInf | NaN

datatype jsdate = InvalidDate | Time int

datatype jsval =
    JUndefined
  | JNull
  | JBool bool
  | JNum jsnum
  | JStr string
  | JDate jsdate
  | JArr "jsval list"
  | JObj "(string \<times> jsval) list"
  | JBuiltin string

type_synonym jsobj = "(string \<times> jsval) list"

text \<open>What a \<^verbatim>\<open>throw\<close> carries: the built-in error classes the code can raise, and
  \<^verbatim>\<open>new Error(message)\<close>.\<close>

datatype js_error = TypeError | SyntaxError | RangeError | Error string

text \<open>The names of the members of \<^verbatim>\<open>Object.prototype\<close> (ECMA-262 20.1.3 and B.2.2).\<close>

definition object_prototype_members :: "string list" where
  "object_prototype_members =
     [''constructor'', ''__defineGetter__'', ''__defineSetter__'', ''hasOwnProperty'',
      ''__lookupGetter__'', ''__lookupSetter__'', ''isPrototypeOf'', ''propertyIsEnumerable'',
      ''toString'', ''valueOf'', ''__proto__'', ''toLocaleString'']"

text \<open>\<^verbatim>\<open>obj[key]\<close> on a plain object: the own property's value, else the inherited member of
  that name, else \<^verbatim>\<open>undefined\<close>.\<close>

definition get_prop :: "jsobj \<Rightarrow> string \<Rightarrow> jsval" where
  "get_prop obj key =
     (case map_of obj key of
        Some v \<Rightarrow> v
      | None \<Rightarrow> if key \<in> set object_prototype_members then JBuiltin key else JUndefined)"

text \<open>An object has an own property \<open>key\<close>.\<close>

definition has_key :: "(string \<times> 'a) list \<Rightarrow> string \<Rightarrow> bool" where
  "has_key obj key = (key \<in> fst ` set obj)"

text \<open>The definition of an own property, as an object literal and a spread make it: an
  existing property keeps its place, a new one goes last.\<close>

fun obj_set :: "(string \<times> 'a) list \<Rightarrow> string \<Rightarrow> 'a \<Rightarrow> (string \<times> 'a) list" where
  "obj_set [] key v = [(key, v)]"
| "obj_set ((k, w) # rest) key v =
     (if k = key then (k, v) # rest else (k, w) # obj_set rest key v)"

text \<open>The assignment \<^verbatim>\<open>obj[key] = v\<close> on a plain object. It defines the own property,
  except for the name \<^verbatim>\<open>__proto__\<close>: unless the object has an own property of that
  name, the assignment reaches the accessor that \<^verbatim>\<open>Object.prototype\<close> has under it, which
  replaces the prototype of the object (when \<open>v\<close> is an object or \<^verbatim>\<open>null\<close>) and adds no
  own property.\<close>

definition assign :: "(string \<times> 'a) list \<Rightarrow> string \<Rightarrow> 'a \<Rightarrow> (string \<times> 'a) list" where
  "assign obj key v =
     (if key = ''__proto__'' \<and> \<not> has_key obj key then obj else obj_set obj key v)"

text \<open>\<^verbatim>\<open>{ ...a, ...b }\<close>: the own properties of \<open>b\<close> defined on a copy of \<open>a\<close>, in order.\<close>

definition spread :: "jsobj \<Rightarrow> jsobj \<Rightarrow> jsobj" where
  "spread a b = fold (\<lambda>(k, v) acc. obj_set acc k v) b a"

text \<open>Truthiness, \<^verbatim>\<open>v == null\<close>, and the strict equality \<^verbatim>\<open>===\<close>. Two arrays,
  objects or dates are strictly equal only when they are the same object; the operands
  compared below always come from different sources (a record read from the file, a
  caller's query), so on them the comparison is false. A member of \<^verbatim>\<open>Object.prototype\<close>
  is the same object wherever it is read.\<close>

fun truthy :: "jsval \<Rightarrow> bool" where
  "truthy JUndefined = False"
| "truthy JNull = False"
| "truthy (JBool b) = b"
| "truthy (JNum n) = (n \<noteq> Fin 0 \<and> n \<noteq> NaN)"
| "truthy (JStr s) = (s \<noteq> [])"
| "truthy (JDate d) = True"
| "truthy (JArr xs) = True"
| "truthy (JObj fs) = True"
| "truthy (JBuiltin name) = True"

fun is_nullish :: "jsval \<Rightarrow> bool" where
  "is_nullish JUndefined = True"
| "is_nullish JNull = True"
| "is_nullish v = False"

fun strict_eq :: "jsval \<Rightarrow> jsval \<Rightarrow> bool" where
  "strict_eq JUndefined JUndefined = True"
| "strict_eq JNull JNull = True"
| "strict_eq (JBool a) (JBool b) = (a = b)"
| "strict_eq (JNum a) (JNum b) = (a \<noteq> NaN \<and> a = b)"
| "strict_eq (JStr a) (JStr b) = (a = b)"
| "strict_eq (JBuiltin a) (JBuiltin b) = (a = b)"
| "strict_eq a b = False"

text \<open>SameValueZero, the comparison of \<^verbatim>\<open>Array.prototype.includes\<close>: strict equality,
  except that NaN equals NaN.\<close>

definition same_value_zero :: "jsval \<Rightarrow> jsval \<Rightarrow> bool" where
  "same_value_zero a b = ((a = JNum NaN \<and> b = JNum NaN) \<or> strict_eq a b)"

definition array_includes :: "jsval list \<Rightarrow> jsval \<Rightarrow> bool" where
  "array_includes xs item = list_ex (\<lambda>x. same_value_zero x item) xs"

text \<open>The decimal numeral of a natural number: the keys of an array's elements.\<close>

definition digit_char :: "nat \<Rightarrow> char" where
  "digit_char d = ''0123456789'' ! d"

function show_nat :: "nat \<Rightarrow> string" where
  "show_nat n = (if n < 10 then [digit_char n] else show_nat (n div 10) @ [digit_char (n mod 10)])"
  by pat_completeness auto
termination
  by (relation "measure id") auto

declare show_nat.simps [simp del]

definition index_entries :: "jsval list \<Rightarrow> jsobj" where
  "index_entries xs = zip (map show_nat [0..<length xs]) xs"

text \<open>The relational operators, from the host's \<open>IsLessThan\<close> (ECMA-262 7.2.13), which
  answers true, false or undefined (\<open>None\<close>, when a NaN is compared). It is a parameter
  \<open>lt\<close>: the conversions it applies to operands of mixed types are the language's, not
  this program's.\<close>

type_synonym less_than = "jsval \<Rightarrow> jsval \<Rightarrow> bool option"

definition js_lt :: "less_than \<Rightarrow> jsval \<Rightarrow> jsval \<Rightarrow> bool" where
  "js_lt lt a b = (lt a b = Some True)"

definition js_gt :: "less_than \<Rightarrow> jsval \<Rightarrow> jsval \<Rightarrow> bool" where
  "js_gt lt a b = (lt b a = Some True)"

definition js_lte :: "less_than \<Rightarrow> jsval \<Rightarrow> jsval \<Rightarrow> bool" where
  "js_lte lt a b = (lt b a = Some False)"

definition js_gte :: "less_than \<Rightarrow> jsval \<Rightarrow> jsval \<Rightarrow> bool" where
  "js_gte lt a b = (lt a b = Some False)"

text \<open>\<^verbatim>\<open>new RegExp(pattern, flags).test(subject)\<close> is the host's too, a parameter \<open>rx\<close>:
  it throws a SyntaxError on a bad pattern or bad flags, and answers otherwise.\<close>

type_synonym regexp_test = "jsval \<Rightarrow> jsval \<Rightarrow> jsval \<Rightarrow> js_error + bool"

section \<open>Model: the shared predicate\<close>

text \<open>\<^verbatim>\<open>Array.prototype.every\<close> with a callback that may throw: it stops at the first
  entry that is not satisfied, and a throw ends the whole call.\<close>

fun every_m :: "('a \<Rightarrow> js_error + bool) \<Rightarrow> 'a list \<Rightarrow> js_error + bool" where
  "every_m f [] = Inr True"
| "every_m f (x # xs) =
     (case f x of
        Inl e \<Rightarrow> Inl e
      | Inr ok \<Rightarrow> if ok then every_m f xs else Inr False)"

text \<open>\<^verbatim>\<open>Array.isArray(doc[key]) ? doc[key] : [doc[key]]\<close>\<close>

definition doc_values :: "jsval \<Rightarrow> jsval list" where
  "doc_values v = (case v of JArr xs \<Rightarrow> xs | _ \<Rightarrow> [v])"

text \<open>\<^verbatim>\<open>operand.some(item => docValue.includes(item))\<close>: a TypeError unless the operand
  is an array.\<close>

definition some_included :: "jsval \<Rightarrow> jsval list \<Rightarrow> js_error + bool" where
  "some_included operand docValue =
     (case operand of
        JArr items \<Rightarrow> Inr (list_ex (\<lambda>item. array_includes docValue item) items)
      | _ \<Rightarrow> Inl TypeError)"

text \<open>The \<^verbatim>\<open>switch (operator)\<close> of \<^verbatim>\<open>_matchQuery\<close>, for one entry of a criterion object.
  \<open>options\<close> is \<^verbatim>\<open>value.$options\<close> of the enclosing criterion.\<close>

definition match_operator ::
    "less_than \<Rightarrow> regexp_test \<Rightarrow> jsobj \<Rightarrow> string \<Rightarrow> jsval \<Rightarrow> string \<times> jsval \<Rightarrow> js_error + bool" where
  "match_operator lt rx doc key options entry =
     (let operator = fst entry; operand = snd entry in
      if operator = ''$gt'' then Inr (js_gt lt (get_prop doc key) operand)
      else if operator = ''$gte'' then Inr (js_gte lt (get_prop doc key) operand)
      else if operator = ''$lt'' then Inr (js_lt lt (get_prop doc key) operand)
      else if operator = ''$lte'' then Inr (js_lte lt (get_prop doc key) operand)
      else if operator = ''$ne'' then Inr (\<not> strict_eq (get_prop doc key) operand)
      else if operator = ''$in'' then some_included operand (doc_values (get_prop doc key))
      else if operator = ''$nin'' then
        (case some_included operand (doc_values (get_prop doc key)) of
           Inl e \<Rightarrow> Inl e
         | Inr found \<Rightarrow> Inr (\<not> found))
      else if operator = ''$regex'' then rx operand options (get_prop doc key)
      else Inr False)"

text \<open>One entry of the query. \<^verbatim>\<open>value && typeof value === 'object'\<close> holds of objects,
  arrays and dates: an object is read as a list of operators, an array as the list of its
  index entries, and a Date has no entries at all, nor has \<^verbatim>\<open>Object.prototype\<close> (its
  members are not enumerable). Every other value is compared with \<^verbatim>\<open>===\<close>.\<close>

definition match_condition ::
    "less_than \<Rightarrow> regexp_test \<Rightarrow> jsobj \<Rightarrow> string \<times> jsval \<Rightarrow> js_error + bool" where
  "match_condition lt rx doc cond =
     (let key = fst cond; value = snd cond in
      case value of
        JObj ops \<Rightarrow> every_m (match_operator lt rx doc key (get_prop ops ''$options'')) ops
      | JArr xs \<Rightarrow> every_m (match_operator lt rx doc key JUndefined) (index_entries xs)
      | JDate d \<Rightarrow> Inr True
      | JBuiltin name \<Rightarrow>
          if name = ''__proto__'' then Inr True else Inr (strict_eq (get_prop doc key) value)
      | _ \<Rightarrow> Inr (strict_eq (get_prop doc key) value))"

definition match_query :: "less_than \<Rightarrow> regexp_test \<Rightarrow> jsobj \<Rightarrow> jsobj \<Rightarrow> js_error + bool" where
  "match_query lt rx doc query = every_m (match_condition lt rx doc) query"

text \<open>\<^verbatim>\<open>docs.filter(doc => this._matchQuery(doc, conditions))\<close>, over the records that
  \<^verbatim>\<open>readJSON\<close> returned.\<close>

fun filter_m :: "('a \<Rightarrow> js_error + bool) \<Rightarrow> 'a list \<Rightarrow> js_error + 'a list" where
  "filter_m f [] = Inr []"
| "filter_m f (x # xs) =
     (case f x of
        Inl e \<Rightarrow> Inl e
      | Inr keep \<Rightarrow>
          (case filter_m f xs of
             Inl e \<Rightarrow> Inl e
           | Inr rest \<Rightarrow> Inr (if keep then x # rest else rest)))"

definition find_docs :: "less_than \<Rightarrow> regexp_test \<Rightarrow> jsobj list \<Rightarrow> jsobj \<Rightarrow> js_error + jsobj list" where
  "find_docs lt rx docs conditions = filter_m (\<lambda>doc. match_query lt rx doc conditions) docs"

section \<open>Query and QueryBuilder\<close>

text \<open>The fields of a Query that \<^verbatim>\<open>exec\<close> reads. \<^verbatim>\<open>_skip\<close> and \<^verbatim>\<open>_limit\<close> are
  \<^verbatim>\<open>null\<close> (\<open>None\<close>) until set, and hold integers afterwards; a sort order is 1 or -1.\<close>

record query =
  q_conditions :: jsobj
  q_sort :: "(string \<times> int) list"
  q_skip :: "int option"
  q_limit :: "int option"
  q_populate :: "string list"

definition model_find :: "jsobj \<Rightarrow> query" where
  "model_find conditions =
     \<lparr>q_conditions = conditions, q_sort = [], q_skip = None, q_limit = None, q_populate = []\<rparr>"

definition skip :: "query \<Rightarrow> int \<Rightarrow> query" where
  "skip q n = q\<lparr>q_skip := Some n\<rparr>"

definition limit :: "query \<Rightarrow> int \<Rightarrow> query" where
  "limit q n = q\<lparr>q_limit := Some n\<rparr>"

definition populate :: "query \<Rightarrow> string \<Rightarrow> query" where
  "populate q path = q\<lparr>q_populate := q_populate q @ [path]\<rparr>"

text \<open>\<^verbatim>\<open>where(path)\<close> gives a QueryBuilder, the query with the path (a string; a path that
  is a symbol is not modelled); each of its methods
  writes one condition, by the assignment \<^verbatim>\<open>this.query.conditions[this.path] = ...\<close>, and
  gives the query back. Of the conditions only the own entries are read afterwards.\<close>

type_synonym query_builder = "query \<times> string"

definition where_path :: "query \<Rightarrow> string \<Rightarrow> query_builder" where
  "where_path q path = (q, path)"

definition set_condition :: "query_builder \<Rightarrow> jsval \<Rightarrow> query" where
  "set_condition qb v = (fst qb)\<lparr>q_conditions := assign (q_conditions (fst qb)) (snd qb) v\<rparr>"

definition as_array :: "jsval \<Rightarrow> jsval" where
  "as_array v = (case v of JArr xs \<Rightarrow> JArr xs | _ \<Rightarrow> JArr [v])"

definition qb_equals :: "query_builder \<Rightarrow> jsval \<Rightarrow> query" where
  "qb_equals qb val = set_condition qb val"

definition qb_gt :: "query_builder \<Rightarrow> jsval \<Rightarrow> query" where
  "qb_gt qb val = set_condition qb (JObj [(''$gt'', val)])"

definition qb_gte :: "query_builder \<Rightarrow> jsval \<Rightarrow> query" where
  "qb_gte qb val = set_condition qb (JObj [(''$gte'', val)])"

definition qb_lt :: "query_builder \<Rightarrow> jsval \<Rightarrow> query" where
  "qb_lt qb val = set_condition qb (JObj [(''$lt'', val)])"

definition qb_lte :: "query_builder \<Rightarrow> jsval \<Rightarrow> query" where
  "qb_lte qb val = set_condition qb (JObj [(''$lte'', val)])"

definition qb_in :: "query_builder \<Rightarrow> jsval \<Rightarrow> query" where
  "qb_in qb arr = set_condition qb (JObj [(''$in'', as_array arr)])"

definition qb_nin :: "query_builder \<Rightarrow> jsval \<Rightarrow> query" where
  "qb_nin qb arr = set_condition qb (JObj [(''$nin'', as_array arr)])"

text \<open>\<^verbatim>\<open>exists(val = true)\<close>: the default stands in for a missing or undefined argument.\<close>

definition qb_exists :: "query_builder \<Rightarrow> jsval \<Rightarrow> query" where
  "qb_exists qb val =
     set_condition qb (JObj [(''$exists'', if val = JUndefined then JBool True else val)])"

definition qb_regex :: "query_builder \<Rightarrow> jsval \<Rightarrow> jsval \<Rightarrow> query" where
  "qb_regex qb pattern options =
     set_condition qb (JObj [(''$regex'', pattern), (''$options'', options)])"

text \<open>\<^verbatim>\<open>docs.slice(n)\<close> and \<^verbatim>\<open>docs.slice(0, n)\<close>; a negative \<open>n\<close> counts from the end.\<close>

definition slice_from :: "'a list \<Rightarrow> int \<Rightarrow> 'a list" where
  "slice_from xs n = (if n < 0 then drop (nat (int (length xs) + n)) xs else drop (nat n) xs)"

definition slice_to :: "'a list \<Rightarrow> int \<Rightarrow> 'a list" where
  "slice_to xs n = (if n < 0 then take (nat (int (length xs) + n)) xs else take (nat n) xs)"

text \<open>The half-open window \<open>[s, s + l)\<close> of a sequence.\<close>

definition slice_window :: "'a list \<Rightarrow> nat \<Rightarrow> nat \<Rightarrow> 'a list" where
  "slice_window xs s l = take l (drop s xs)"

text \<open>The comparator of \<^verbatim>\<open>exec\<close>, and \<^verbatim>\<open>Array.prototype.sort\<close> as the stable insertion
  sort (every stable sort agrees with it when the comparator is a consistent order).\<close>

fun compare_docs :: "less_than \<Rightarrow> (string \<times> int) list \<Rightarrow> jsobj \<Rightarrow> jsobj \<Rightarrow> int" where
  "compare_docs lt [] a b = 0"
| "compare_docs lt ((fld, order) # rest) a b =
     (if js_lt lt (get_prop a fld) (get_prop b fld) then - 1 * order
      else if js_gt lt (get_prop a fld) (get_prop b fld) then 1 * order
      else compare_docs lt rest a b)"

fun insert_by :: "('a \<Rightarrow> 'a \<Rightarrow> int) \<Rightarrow> 'a \<Rightarrow> 'a list \<Rightarrow> 'a list" where
  "insert_by cmp x [] = [x]"
| "insert_by cmp x (y # ys) = (if cmp x y < 0 then x # y # ys else y # insert_by cmp x ys)"

definition sort_by :: "('a \<Rightarrow> 'a \<Rightarrow> int) \<Rightarrow> 'a list \<Rightarrow> 'a list" where
  "sort_by cmp xs = fold (insert_by cmp) xs []"

text \<open>\<^verbatim>\<open>new Document(doc, schema, model)\<close>: the wrapper keeps a copy of the record and its
  \<^verbatim>\<open>_id\<close>; virtuals and bound methods are closures of the schema and are left out.\<close>

record document =
  d_doc :: jsobj
  d_id :: jsval
  d_isNew :: bool

definition new_document :: "jsobj \<Rightarrow> document" where
  "new_document obj = \<lparr>d_doc = obj, d_id = get_prop obj ''_id'', d_isNew = True\<rparr>"

text \<open>\<^verbatim>\<open>Query.exec\<close> over the records \<open>docs\<close> that the collection file holds. Population
  reads other collections through the connection's registry; \<^verbatim>\<open>_populateDoc\<close> is the
  parameter \<open>populate_doc\<close> (it catches its own lookup errors).\<close>

definition exec ::
    "less_than \<Rightarrow> regexp_test \<Rightarrow> (string list \<Rightarrow> document \<Rightarrow> document) \<Rightarrow> jsobj list \<Rightarrow> query
      \<Rightarrow> js_error + document list" where
  "exec lt rx populate_doc docs q =
     (case find_docs lt rx docs (q_conditions q) of
        Inl e \<Rightarrow> Inl e
      | Inr found \<Rightarrow>
          (let sorted = (if q_sort q \<noteq> [] then sort_by (compare_docs lt (q_sort q)) found else found);
               skipped = (case q_skip q of
                            None \<Rightarrow> sorted
                          | Some n \<Rightarrow> if n \<noteq> 0 then slice_from sorted n else sorted);
               limited = (case q_limit q of
                            None \<Rightarrow> skipped
                          | Some n \<Rightarrow> if n \<noteq> 0 then slice_to skipped n else skipped);
               documents = map new_document limited
           in if q_populate q \<noteq> [] then Inr (map (populate_doc (q_populate q)) documents)
              else Inr documents))"

section \<open>SchemaType\<close>

text \<open>A validator is called as \<^verbatim>\<open>validator.validator.call(context, value)\<close>: it returns a
  value, throws, or returns a thenable that settles later. \<open>v_message\<close> is empty when the
  validator carries no message.\<close>

datatype vresult = Returned jsval | Threw | Thenable

type_synonym validator_fn = "jsobj \<Rightarrow> jsval \<Rightarrow> vresult"

record validator =
  v_validator :: validator_fn
  v_message :: string
  v_isRequired :: bool

text \<open>A setter returns the new value or throws an error with a message.\<close>

type_synonym setter = "jsval \<Rightarrow> string + jsval"

record schematype =
  st_path :: string
  st_validators :: "validator list"
  st_setters :: "setter list"

definition default_message :: "string \<Rightarrow> string" where
  "default_message path = ''Validation failed for path `'' @ path @ ''`''"

text \<open>The validator that \<^verbatim>\<open>required(required)\<close> registers: \<^verbatim>\<open>v => v != null\<close>.\<close>

definition required_validator :: "string \<Rightarrow> validator" where
  "required_validator path =
     \<lparr>v_validator = (\<lambda>context v. Returned (JBool (\<not> is_nullish v))),
      v_message = ''Path `'' @ path @ ''` is required.'',
      v_isRequired = True\<rparr>"

text \<open>\<^verbatim>\<open>required()\<close> without an argument, and \<^verbatim>\<open>required(flag)\<close>, which puts the
  built-in validator in front of the list when the flag is truthy.\<close>

definition is_required :: "schematype \<Rightarrow> bool" where
  "is_required st = list_ex v_isRequired (st_validators st)"

definition required :: "schematype \<Rightarrow> bool \<Rightarrow> schematype" where
  "required st flag =
     (if flag then st\<lparr>st_validators := required_validator (st_path st) # st_validators st\<rparr>
      else st)"

text \<open>The argument of \<^verbatim>\<open>validate(obj)\<close>: nothing, a function, or an object whose
  \<^verbatim>\<open>validator\<close> and \<^verbatim>\<open>message\<close> may be missing. \<^verbatim>\<open>_createValidator\<close> copies the
  function and the message only, so a custom validator is never marked required.\<close>

datatype validate_arg =
    NoValidator
  | ValidatorFunction validator_fn
  | ValidatorObject "validator_fn option" string

definition create_validator :: "string \<Rightarrow> validator_fn \<Rightarrow> string \<Rightarrow> validator" where
  "create_validator path f message =
     \<lparr>v_validator = f,
      v_message = (if message \<noteq> [] then message else default_message path),
      v_isRequired = False\<rparr>"

definition add_validator :: "schematype \<Rightarrow> validate_arg \<Rightarrow> schematype" where
  "add_validator st obj =
     (case obj of
        NoValidator \<Rightarrow> st
      | ValidatorFunction f \<Rightarrow>
          st\<lparr>st_validators := st_validators st @ [create_validator (st_path st) f []]\<rparr>
      | ValidatorObject None message \<Rightarrow> st
      | ValidatorObject (Some f) message \<Rightarrow>
          st\<lparr>st_validators := st_validators st @ [create_validator (st_path st) f message]\<rparr>)"

definition add_setter :: "schematype \<Rightarrow> setter \<Rightarrow> schematype" where
  "add_setter st f = st\<lparr>st_setters := st_setters st @ [f]\<rparr>"

text \<open>The options of one field of a schema definition, as far as the code reads them.\<close>

datatype ftype = TString | TNumber | TBoolean | TDate | TArray | TObject | TObjectId | TOther

datatype fdefault =
    NoDefault
  | DefaultValue jsval
  | DefaultProducer "unit \<Rightarrow> js_error + jsval"

record field_options =
  o_type :: ftype
  o_required :: bool
  o_default :: fdefault
  o_validate :: validate_arg
  o_set :: "setter option"

text \<open>The constructor: \<^verbatim>\<open>required\<close> first, then \<^verbatim>\<open>validate\<close>, then \<^verbatim>\<open>set\<close>.\<close>

definition new_schematype :: "string \<Rightarrow> field_options \<Rightarrow> schematype" where
  "new_schematype path options =
     (let st0 = \<lparr>st_path = path, st_validators = [], st_setters = []\<rparr>;
          st1 = (if o_required options then required st0 True else st0);
          st2 = add_validator st1 (o_validate options)
      in case o_set options of None \<Rightarrow> st2 | Some f \<Rightarrow> add_setter st2 f)"

text \<open>Calls a caller can make on a SchemaType after its construction.\<close>

datatype st_call = CallRequired bool | CallValidate validate_arg | CallSet setter

fun apply_call :: "schematype \<Rightarrow> st_call \<Rightarrow> schematype" where
  "apply_call st (CallRequired flag) = required st flag"
| "apply_call st (CallValidate obj) = add_validator st obj"
| "apply_call st (CallSet f) = add_setter st f"

definition apply_calls :: "schematype \<Rightarrow> st_call list \<Rightarrow> schematype" where
  "apply_calls st calls = fold (\<lambda>c s. apply_call s c) calls st"



text \<open>The synchronous part of \<^verbatim>\<open>doValidate\<close>. The state is the two local variables
  \<^verbatim>\<open>err\<close> (the message of the error, if any) and \<^verbatim>\<open>validatorsCompleted\<close>, with two logs:
  the arguments \<^verbatim>\<open>fn\<close> was called with, and the positions of the validators that were
  called. \<open>fn_throws\<close> says on which argument the callback \<^verbatim>\<open>fn\<close> throws.\<close>

record dv_state =
  dv_err :: "string option"
  dv_completed :: nat
  dv_reported :: "string option list"
  dv_invoked :: "nat list"

text \<open>\<^verbatim>\<open>validatorWrapper(ok)\<close>; the second component says that \<^verbatim>\<open>fn\<close> threw.\<close>

definition validator_wrapper ::
    "(string option \<Rightarrow> bool) \<Rightarrow> string \<Rightarrow> nat \<Rightarrow> validator \<Rightarrow> jsval \<Rightarrow> dv_state \<Rightarrow> dv_state \<times> bool" where
  "validator_wrapper fn_throws path validatorCount v ok st =
     (let st1 = st\<lparr>dv_completed := dv_completed st + 1\<rparr>;
          st2 = (if ok = JBool False \<and> dv_err st1 = None
                 then st1\<lparr>dv_err :=
                        Some (if v_message v \<noteq> [] then v_message v else default_message path)\<rparr>
                 else st1)
      in if dv_completed st2 = validatorCount
         then (st2\<lparr>dv_reported := dv_reported st2 @ [dv_err st2]\<rparr>, fn_throws (dv_err st2))
         else (st2, False))"

text \<open>One turn of the loop. A throw inside \<^verbatim>\<open>try\<close> (of the validator, or of \<^verbatim>\<open>fn\<close> called
  by the wrapper) runs \<^verbatim>\<open>validatorWrapper(false)\<close>; a throw of \<^verbatim>\<open>fn\<close> from there leaves
  \<^verbatim>\<open>doValidate\<close>. The wrapper of a thenable runs after the loop, not here.\<close>

definition run_validator ::
    "(string option \<Rightarrow> bool) \<Rightarrow> string \<Rightarrow> nat \<Rightarrow> jsobj \<Rightarrow> jsval \<Rightarrow> nat \<times> validator \<Rightarrow> dv_state
      \<Rightarrow> dv_state \<times> bool" where
  "run_validator fn_throws path validatorCount context value iv st =
     (let i = fst iv; v = snd iv; st0 = st\<lparr>dv_invoked := dv_invoked st @ [i]\<rparr> in
      case v_validator v context value of
        Threw \<Rightarrow> validator_wrapper fn_throws path validatorCount v (JBool False) st0
      | Thenable \<Rightarrow> (st0, False)
      | Returned result \<Rightarrow>
          (case validator_wrapper fn_throws path validatorCount v result st0 of
             (st1, threw) \<Rightarrow>
               if threw then validator_wrapper fn_throws path validatorCount v (JBool False) st1
               else (st1, False)))"

fun run_validators ::
    "(string option \<Rightarrow> bool) \<Rightarrow> string \<Rightarrow> nat \<Rightarrow> jsobj \<Rightarrow> jsval \<Rightarrow> (nat \<times> validator) list \<Rightarrow> dv_state
      \<Rightarrow> dv_state \<times> bool" where
  "run_validators fn_throws path validatorCount context value [] st = (st, False)"
| "run_validators fn_throws path validatorCount context value (iv # rest) st =
     (case run_validator fn_throws path validatorCount context value iv st of
        (st1, threw) \<Rightarrow>
          if threw then (st1, True)
          else run_validators fn_throws path validatorCount context value rest st1)"

definition do_validate ::
    "(string option \<Rightarrow> bool) \<Rightarrow> schematype \<Rightarrow> jsval \<Rightarrow> jsobj \<Rightarrow> dv_state \<times> bool" where
  "do_validate fn_throws st value context =
     (let validatorCount = length (st_validators st);
          init = \<lparr>dv_err = None, dv_completed = 0, dv_reported = [], dv_invoked = []\<rparr>
      in if validatorCount = 0 then (init\<lparr>dv_reported := [None]\<rparr>, fn_throws None)
         else run_validators fn_throws (st_path st) validatorCount context value
                (zip [0..<validatorCount] (st_validators st)) init)"

subsection \<open>What doValidate reports\<close>

text \<open>The message an error of validator \<open>v\<close> carries: \<^verbatim>\<open>validator.message || `Validation failed ...`\<close>.\<close>

definition message_of :: "string \<Rightarrow> validator \<Rightarrow> string" where
  "message_of path v = (if v_message v \<noteq> [] then v_message v else default_message path)"

text \<open>A validator fails when it throws or returns \<^verbatim>\<open>false\<close> (the wrapper tests \<^verbatim>\<open>ok === false\<close>).\<close>

definition validator_fails :: "jsobj \<Rightarrow> jsval \<Rightarrow> validator \<Rightarrow> bool" where
  "validator_fails ctx val v =
     (v_validator v ctx val = Threw \<or> v_validator v ctx val = Returned (JBool False))"

text \<open>The message of the first validator, in registration order, that fails; \<open>None\<close> (\<^verbatim>\<open>null\<close>) when every validator passes.\<close>

definition first_failure :: "string \<Rightarrow> jsobj \<Rightarrow> jsval \<Rightarrow> validator list \<Rightarrow> string option" where
  "first_failure path ctx val vs =
     (case List.find (validator_fails ctx val) vs of
        None \<Rightarrow> None
      | Some v \<Rightarrow> Some (message_of path v))"

text \<open>Every validator answers at once: none returns a thenable.\<close>

definition synchronous :: "jsobj \<Rightarrow> jsval \<Rightarrow> validator list \<Rightarrow> bool" where
  "synchronous ctx val vs = list_all (\<lambda>v. v_validator v ctx val \<noteq> Thenable) vs"

text \<open>The variable \<^verbatim>\<open>err\<close> after the wrapper of one more validator, and after a list of them.\<close>

definition err_after :: "string \<Rightarrow> jsobj \<Rightarrow> jsval \<Rightarrow> string option \<Rightarrow> validator \<Rightarrow> string option" where
  "err_after path ctx val err v =
     (case err of Some e \<Rightarrow> Some e
      | None \<Rightarrow> if validator_fails ctx val v then Some (message_of path v) else None)"

fun err_fold :: "string \<Rightarrow> jsobj \<Rightarrow> jsval \<Rightarrow> string option \<Rightarrow> validator list \<Rightarrow> string option" where
  "err_fold path ctx val err [] = err"
| "err_fold path ctx val err (v # vs) =
     err_fold path ctx val (err_after path ctx val err v) vs"

text \<open>The shape of a validator list: copies of the built-in required validator, then validators that are not marked required.\<close>

definition required_first :: "schematype \<Rightarrow> bool" where
  "required_first st =
     (\<exists>m rest. st_validators st = replicate m (required_validator (st_path st)) @ rest
        \<and> list_all (\<lambda>v. \<not> v_isRequired v) rest)"

section \<open>Schema\<close>

text \<open>A hook is called with the record as \<^verbatim>\<open>this\<close>: it may change it, and may throw.\<close>

type_synonym hook = "jsobj \<Rightarrow> js_error + jsobj"

record schema =
  s_definition :: "(string \<times> field_options) list"
  s_paths :: "(string \<times> schematype) list"
  s_pre_save :: "hook list"
  s_post_save :: "hook list"



definition pre_save :: "schema \<Rightarrow> hook \<Rightarrow> schema" where
  "pre_save s f = s\<lparr>s_pre_save := s_pre_save s @ [f]\<rparr>"

definition post_save :: "schema \<Rightarrow> hook \<Rightarrow> schema" where
  "post_save s f = s\<lparr>s_post_save := s_post_save s @ [f]\<rparr>"




section \<open>Model: create, update, delete\<close>

text \<open>The operations below take the records \<open>docs\<close> that \<^verbatim>\<open>readJSON\<close> returned and give
  the sequence they pass to \<^verbatim>\<open>writeJSON\<close> (\<open>None\<close> when they write nothing). The fresh
  identifier \<^verbatim>\<open>new ObjectId().toString()\<close> and the clock \<^verbatim>\<open>new Date()\<close> are arguments.
  \<^verbatim>\<open>new Date(string)\<close> is the host's parser, a parameter \<open>date_parse\<close>.\<close>

type_synonym date_parser = "string \<Rightarrow> jsdate"










text \<open>\<^verbatim>\<open>docs.findIndex(doc => this._matchQuery(doc, conditions))\<close>\<close>

fun find_index_m :: "('a \<Rightarrow> js_error + bool) \<Rightarrow> 'a list \<Rightarrow> js_error + nat option" where
  "find_index_m f [] = Inr None"
| "find_index_m f (x # xs) =
     (case f x of
        Inl e \<Rightarrow> Inl e
      | Inr hit \<Rightarrow>
          if hit then Inr (Some 0)
          else (case find_index_m f xs of
                  Inl e \<Rightarrow> Inl e
                | Inr None \<Rightarrow> Inr None
                | Inr (Some i) \<Rightarrow> Inr (Some (Suc i))))"

text \<open>\<^verbatim>\<open>updateOne(conditions, update)\<close>: what was written, and \<^verbatim>\<open>modifiedCount\<close>.\<close>

definition update_one ::
    "less_than \<Rightarrow> regexp_test \<Rightarrow> jsobj list \<Rightarrow> jsobj \<Rightarrow> jsobj \<Rightarrow> jsdate
      \<Rightarrow> js_error + (jsobj list option \<times> nat)" where
  "update_one lt rx docs conditions update now =
     (case find_index_m (\<lambda>doc. match_query lt rx doc conditions) docs of
        Inl e \<Rightarrow> Inl e
      | Inr None \<Rightarrow> Inr (None, 0)
      | Inr (Some index) \<Rightarrow>
          Inr (Some (docs[index := obj_set (spread (docs ! index) update) ''updatedAt'' (JDate now)]), 1))"


subsection \<open>What one field contributes to validate\<close>



text \<open>The \<^verbatim>\<open>_id\<close> values of a sequence of records, in order.\<close>

definition ids :: "jsobj list \<Rightarrow> jsval list" where
  "ids docs = map (\<lambda>doc. get_prop doc ''_id'') docs"


section \<open>Persistence: writeJSON and readJSON\<close>

subsection \<open>Dates as ISO-8601 text\<close>

text \<open>\<^verbatim>\<open>Date.prototype.toISOString\<close> of a valid date (ECMA-262 21.4.4.36): the UTC fields
  of the proleptic Gregorian calendar, the year with four digits when it is between 0
  and 9999 and with a sign and six digits otherwise.\<close>

text \<open>Decimal text padded with zeros to two, three, four and six digits.\<close>

definition pad2 :: "nat \<Rightarrow> string" where
  "pad2 n = (if n < 10 then ''0'' else []) @ show_nat n"

definition pad3 :: "nat \<Rightarrow> string" where
  "pad3 n = (if n < 100 then ''0'' else []) @ pad2 n"

definition pad4 :: "nat \<Rightarrow> string" where
  "pad4 n = (if n < 1000 then ''0'' else []) @ pad3 n"

definition pad6 :: "nat \<Rightarrow> string" where
  "pad6 n = (if n < 100000 then ''0'' else []) @ (if n < 10000 then ''0'' else []) @ pad4 n"

text \<open>The civil date of a day number (days since 1970-01-01), step by step: the
  400-year era and the day of the era, the year of the era, the day of the year counted
  from 1 March, the month counted from March.\<close>

definition year_of_era :: "int \<Rightarrow> int" where
  "year_of_era doe = (doe - doe div 1460 + doe div 36524 - doe div 146096) div 365"

definition day_of_year :: "int \<Rightarrow> int \<Rightarrow> int" where
  "day_of_year doe yoe = doe - (365 * yoe + yoe div 4 - yoe div 100)"

definition month_from_march :: "int \<Rightarrow> int" where
  "month_from_march doy = (5 * doy + 2) div 153"

definition civil_month :: "int \<Rightarrow> int" where
  "civil_month mp = (if mp < 10 then mp + 3 else mp - 9)"

definition civil_date :: "int \<Rightarrow> int \<Rightarrow> int \<Rightarrow> int \<Rightarrow> int \<times> nat \<times> nat" where
  "civil_date era yoe doy mp =
     (if civil_month mp \<le> 2 then yoe + era * 400 + 1 else yoe + era * 400,
      nat (civil_month mp),
      nat (doy - (153 * mp + 2) div 5 + 1))"

definition civil_of_era_day :: "int \<Rightarrow> int \<Rightarrow> int \<times> nat \<times> nat" where
  "civil_of_era_day era doe =
     civil_date era (year_of_era doe) (day_of_year doe (year_of_era doe))
       (month_from_march (day_of_year doe (year_of_era doe)))"

definition civil_from_days :: "int \<Rightarrow> int \<times> nat \<times> nat" where
  "civil_from_days z = civil_of_era_day ((z + 719468) div 146097) ((z + 719468) mod 146097)"

definition year_text :: "int \<Rightarrow> string" where
  "year_text y =
     (if 0 \<le> y \<and> y \<le> 9999 then pad4 (nat y)
      else (if y < 0 then ''-'' else ''+'') @ pad6 (nat \<bar>y\<bar>))"

definition format_iso :: "int \<times> nat \<times> nat \<Rightarrow> nat \<Rightarrow> string" where
  "format_iso ymd ms =
     year_text (fst ymd) @ ''-'' @ pad2 (fst (snd ymd)) @ ''-'' @ pad2 (snd (snd ymd)) @ ''T''
       @ pad2 (ms div 3600000) @ '':'' @ pad2 (ms div 60000 mod 60) @ '':''
       @ pad2 (ms div 1000 mod 60) @ ''.'' @ pad3 (ms mod 1000) @ ''Z''"

definition to_iso_string :: "int \<Rightarrow> string" where
  "to_iso_string t = format_iso (civil_from_days (t div 86400000)) (nat (t mod 86400000))"

text \<open>The reviver's test
  \<^verbatim>\<open>/^\d{4}-\d{2}-\d{2}T\d{2}:\d{2}:\d{2}.\d{3}Z$/\<close>: a digit, a literal character, or
  the unescaped dot, which matches any character but a line terminator.\<close>

datatype pat = Digit | Lit char | AnyChar

definition is_digit :: "char \<Rightarrow> bool" where
  "is_digit c = (48 \<le> (of_char c :: nat) \<and> (of_char c :: nat) \<le> 57)"

fun pat_matches :: "pat \<Rightarrow> char \<Rightarrow> bool" where
  "pat_matches Digit c = is_digit c"
| "pat_matches (Lit l) c = (c = l)"
| "pat_matches AnyChar c = ((of_char c :: nat) \<noteq> 10 \<and> (of_char c :: nat) \<noteq> 13)"

fun matches :: "pat list \<Rightarrow> string \<Rightarrow> bool" where
  "matches [] [] = True"
| "matches (p # ps) (c # cs) = (pat_matches p c \<and> matches ps cs)"
| "matches ps cs = False"

definition iso_pattern :: "pat list" where
  "iso_pattern =
     [Digit, Digit, Digit, Digit, Lit CHR ''-'', Digit, Digit, Lit CHR ''-'', Digit, Digit,
      Lit CHR ''T'', Digit, Digit, Lit CHR '':'', Digit, Digit, Lit CHR '':'', Digit, Digit,
      AnyChar, Digit, Digit, Digit, Lit CHR ''Z'']"

definition iso_like :: "string \<Rightarrow> bool" where
  "iso_like s = matches iso_pattern s"

subsection \<open>writeJSON and readJSON\<close>

text \<open>What \<^verbatim>\<open>JSON.stringify(data, replacer, 2)\<close> writes for one value, as the JSON tree the
  text denotes (\<open>None\<close>: the value is left out). A Date reaches the replacer already
  turned into text by its own \<^verbatim>\<open>toJSON\<close> (\<^verbatim>\<open>null\<close> for an invalid date), so the replacer's
  test \<^verbatim>\<open>value instanceof Date\<close> never holds and it returns every value as it is. An
  undefined property is dropped, an undefined element becomes \<^verbatim>\<open>null\<close>, and so does a number
  that is not finite. A function is treated as \<^verbatim>\<open>undefined\<close> is, and \<^verbatim>\<open>Object.prototype\<close>
  is written as an object without entries.\<close>

fun to_json :: "jsval \<Rightarrow> jsval option" where
  "to_json JUndefined = None"
| "to_json JNull = Some JNull"
| "to_json (JBool b) = Some (JBool b)"
| "to_json (JNum n) = (case n of Fin r \<Rightarrow> Some (JNum (Fin r)) | _ \<Rightarrow> Some JNull)"
| "to_json (JStr s) = Some (JStr s)"
| "to_json (JDate d) = (case d of InvalidDate \<Rightarrow> Some JNull | Time t \<Rightarrow> Some (JStr (to_iso_string t)))"
| "to_json (JArr xs) = Some (JArr (map (\<lambda>x. case to_json x of None \<Rightarrow> JNull | Some j \<Rightarrow> j) xs))"
| "to_json (JObj fs) =
     Some (JObj (concat (map (\<lambda>(k, v). case to_json v of None \<Rightarrow> [] | Some j \<Rightarrow> [(k, j)]) fs)))"
| "to_json (JBuiltin name) = (if name = ''__proto__'' then Some (JObj []) else None)"

text \<open>\<^verbatim>\<open>JSON.parse(data, reviver)\<close> on the tree: the reviver visits every value, children
  first, and replaces a string of the timestamp shape by \<^verbatim>\<open>new Date(value)\<close>.\<close>

fun revive :: "date_parser \<Rightarrow> jsval \<Rightarrow> jsval" where
  "revive date_parse (JStr s) = (if iso_like s then JDate (date_parse s) else JStr s)"
| "revive date_parse (JArr xs) = JArr (map (revive date_parse) xs)"
| "revive date_parse (JObj fs) = JObj (map (\<lambda>(k, v). (k, revive date_parse v)) fs)"
| "revive date_parse v = v"

text \<open>A collection file: missing, or holding text that is blank, well-formed JSON (given
  by its tree: \<^verbatim>\<open>JSON.parse\<close> of the text \<^verbatim>\<open>JSON.stringify\<close> wrote is that tree), or
  anything else.\<close>

datatype content = Blank | Json jsval | Malformed

datatype json_file = Missing | Stored content

text \<open>\<^verbatim>\<open>writeJSON(filePath, data)\<close>: \<^verbatim>\<open>fs.writeFile\<close> refuses the \<^verbatim>\<open>undefined\<close> that
  \<^verbatim>\<open>JSON.stringify\<close> returns for a value it leaves out, with the host's \<open>reason\<close>.\<close>

definition write_json :: "string \<Rightarrow> string \<Rightarrow> jsval \<Rightarrow> js_error + json_file" where
  "write_json reason filePath data =
     (case to_json data of
        None \<Rightarrow> Inl (Error (''Failed to write to '' @ filePath @ '': '' @ reason))
      | Some j \<Rightarrow> Inr (Stored (Json j)))"

text \<open>\<^verbatim>\<open>readJSON(filePath)\<close>: the result, and the file afterwards (a missing or blank file
  is initialised with the empty array).\<close>

definition read_json :: "date_parser \<Rightarrow> json_file \<Rightarrow> (js_error + jsval) \<times> json_file" where
  "read_json date_parse f =
     (case f of
        Missing \<Rightarrow> (Inr (JArr []), Stored (Json (JArr [])))
      | Stored Blank \<Rightarrow> (Inr (JArr []), Stored (Json (JArr [])))
      | Stored (Json j) \<Rightarrow> (Inr (revive date_parse j), f)
      | Stored Malformed \<Rightarrow> (Inl SyntaxError, f))"

text \<open>A host parser for the examples: \<^verbatim>\<open>new Date(text)\<close> on the date-time format of
  ECMA-262 21.4.1.32 with every field present and in range. On any other text it answers
  an invalid date, which a host need not do.\<close>

definition read_nat :: "string \<Rightarrow> nat" where
  "read_nat s = foldl (\<lambda>a c. 10 * a + (of_char c - 48)) 0 s"

definition days_in_month :: "nat \<Rightarrow> nat \<Rightarrow> nat" where
  "days_in_month y m =
     (if m = 2 then (if y mod 4 = 0 \<and> (y mod 100 \<noteq> 0 \<or> y mod 400 = 0) then 29 else 28)
      else if m = 4 \<or> m = 6 \<or> m = 9 \<or> m = 11 then 30 else 31)"

definition days_of_era :: "int \<Rightarrow> int \<Rightarrow> int \<Rightarrow> int \<Rightarrow> int" where
  "days_of_era era yoe m d =
     era * 146097 + (yoe * 365 + yoe div 4 - yoe div 100
       + ((153 * (if m > 2 then m - 3 else m + 9) + 2) div 5 + d - 1)) - 719468"

definition days_from_civil :: "int \<Rightarrow> int \<Rightarrow> int \<Rightarrow> int" where
  "days_from_civil y m d =
     days_of_era ((if m \<le> 2 then y - 1 else y) div 400) ((if m \<le> 2 then y - 1 else y) mod 400) m d"

definition date_of_fields :: "nat \<Rightarrow> nat \<Rightarrow> nat \<Rightarrow> nat \<Rightarrow> nat \<Rightarrow> nat \<Rightarrow> nat \<Rightarrow> jsdate" where
  "date_of_fields y m d h mi sec ms =
     (if m < 1 \<or> 12 < m \<or> d < 1 \<or> days_in_month y m < d \<or> 23 < h \<or> 59 < mi \<or> 59 < sec
      then InvalidDate
      else Time (days_from_civil (int y) (int m) (int d) * 86400000
                 + int (h * 3600000 + mi * 60000 + sec * 1000 + ms)))"

definition iso_date_parse :: date_parser where
  "iso_date_parse s =
     (if \<not> iso_like s \<or> s ! 19 \<noteq> CHR ''.'' then InvalidDate
      else date_of_fields (read_nat (take 4 s)) (read_nat (take 2 (drop 5 s)))
             (read_nat (take 2 (drop 8 s))) (read_nat (take 2 (drop 11 s)))
             (read_nat (take 2 (drop 14 s))) (read_nat (take 2 (drop 17 s)))
             (read_nat (take 3 (drop 20 s))))"

text \<open>Values that come back from the file as they went in: nothing undefined, finite
  numbers, no string of the timestamp shape, and only dates whose ISO text has that shape
  (a four-digit year) and is parsed back to the same instant.\<close>

fun round_trips :: "date_parser \<Rightarrow> jsval \<Rightarrow> bool" where
  "round_trips date_parse JUndefined = False"
| "round_trips date_parse JNull = True"
| "round_trips date_parse (JBool b) = True"
| "round_trips date_parse (JNum n) = (case n of Fin r \<Rightarrow> True | _ \<Rightarrow> False)"
| "round_trips date_parse (JStr s) = (\<not> iso_like s)"
| "round_trips date_parse (JDate d) =
     (case d of
        InvalidDate \<Rightarrow> False
      | Time t \<Rightarrow> iso_like (to_iso_string t) \<and> date_parse (to_iso_string t) = Time t)"
| "round_trips date_parse (JArr xs) = list_all (round_trips date_parse) xs"
| "round_trips date_parse (JObj fs) = list_all (\<lambda>(k, v). round_trips date_parse v) fs"
| "round_trips date_parse (JBuiltin name) = False"

text \<open>Records for the examples: one with a date, one with a string of the timestamp
  shape, one with a date in the year 10000.\<close>

definition dated_docs :: "jsobj list" where
  "dated_docs =
     [[(''_id'', JStr ''a''), (''createdAt'', JDate (Time 1577836800000)), (''likes'', JNum (Fin 3))]]"

definition timestamp_text_docs :: "jsobj list" where
  "timestamp_text_docs = [[(''title'', JStr ''launch''), (''when'', JStr ''2020-01-01T00:00:00.000Z'')]]"

definition far_future_docs :: "jsobj list" where
  "far_future_docs = [[(''due'', JDate (Time 253402300800000))]]"

section \<open>Aggregate: values that share objects\<close>

text \<open>
  \<^verbatim>\<open>_unwind\<close> copies records shallowly and then assigns into them, and \<^verbatim>\<open>_group\<close> keys a
  Map by values that may be objects, so here a value is a primitive or a reference into
  a store of objects. An object of the store has a kind (plain, an array with its length,
  or a Date) and its own properties in enumeration order; the elements of an array are
  its properties named by indices. Inherited properties are not modelled.
\<close>

datatype prim = PUndefined | PNull | PBool bool | PNum jsnum | PStr string

datatype hval = Prim prim | Ref nat

datatype kind = KObject | KArray nat | KDate jsdate

datatype cell = Cell kind "(string \<times> hval) list"

type_synonym heap = "cell list"

fun truthy_prim :: "prim \<Rightarrow> bool" where
  "truthy_prim PUndefined = False"
| "truthy_prim PNull = False"
| "truthy_prim (PBool b) = b"
| "truthy_prim (PNum n) = (n \<noteq> Fin 0 \<and> n \<noteq> NaN)"
| "truthy_prim (PStr s) = (s \<noteq> [])"

fun truthy_hval :: "hval \<Rightarrow> bool" where
  "truthy_hval (Prim p) = truthy_prim p"
| "truthy_hval (Ref a) = True"

definition lookup :: "(string \<times> hval) list \<Rightarrow> string \<Rightarrow> hval" where
  "lookup ps key = (case map_of ps key of None \<Rightarrow> Prim PUndefined | Some v \<Rightarrow> v)"

text \<open>A property name that is an array index: the decimal numeral of a number.\<close>

definition read_index :: "string \<Rightarrow> nat option" where
  "read_index key =
     (if key \<noteq> [] \<and> list_all is_digit key \<and> show_nat (read_nat key) = key
      then Some (read_nat key) else None)"

text \<open>\<^verbatim>\<open>obj[key]\<close> for a value that is neither \<^verbatim>\<open>null\<close> nor \<^verbatim>\<open>undefined\<close>: a property
  of the object, the length of an array, the length or a character of a string.\<close>

definition own_member :: "heap \<Rightarrow> hval \<Rightarrow> string \<Rightarrow> hval" where
  "own_member h obj key =
     (case obj of
        Ref a \<Rightarrow>
          (if a < length h then
             (case h ! a of
                Cell (KArray n) ps \<Rightarrow>
                  if key = ''length'' then Prim (PNum (Fin (of_nat n))) else lookup ps key
              | Cell k ps \<Rightarrow> lookup ps key)
           else Prim PUndefined)
      | Prim (PStr s) \<Rightarrow>
          (if key = ''length'' then Prim (PNum (Fin (of_nat (length s))))
           else (case read_index key of
                   Some i \<Rightarrow> if i < length s then Prim (PStr [s ! i]) else Prim PUndefined
                 | None \<Rightarrow> Prim PUndefined))
      | Prim p \<Rightarrow> Prim PUndefined)"

text \<open>\<^verbatim>\<open>path.split('.')\<close>\<close>

fun split_dots :: "string \<Rightarrow> string list" where
  "split_dots [] = [[]]"
| "split_dots (c # cs) =
     (if c = CHR ''.'' then [] # split_dots cs
      else (case split_dots cs of [] \<Rightarrow> [[c]] | p # ps \<Rightarrow> (c # p) # ps))"

text \<open>\<^verbatim>\<open>_getFieldValue(doc, path)\<close>:
  \<^verbatim>\<open>path.split('.').reduce((obj, key) => obj && obj[key], doc)\<close>\<close>

definition get_field_value :: "heap \<Rightarrow> hval \<Rightarrow> string \<Rightarrow> hval" where
  "get_field_value h doc path =
     fold (\<lambda>key obj. if truthy_hval obj then own_member h obj key else obj) (split_dots path) doc"

text \<open>\<^verbatim>\<open>expr.startsWith('$')\<close> and \<^verbatim>\<open>_evaluateExpression(expr, doc)\<close>\<close>

definition starts_with_dollar :: "string \<Rightarrow> bool" where
  "starts_with_dollar s = (case s of [] \<Rightarrow> False | c # cs \<Rightarrow> c = CHR ''$'')"

definition evaluate_expression :: "heap \<Rightarrow> hval \<Rightarrow> hval \<Rightarrow> hval" where
  "evaluate_expression h expr doc =
     (case expr of
        Prim (PStr s) \<Rightarrow> if starts_with_dollar s then get_field_value h doc (tl s) else expr
      | _ \<Rightarrow> expr)"

subsection \<open>The \<open>$unwind\<close> stage\<close>

definition is_array :: "heap \<Rightarrow> hval \<Rightarrow> bool" where
  "is_array h v =
     (case v of
        Ref a \<Rightarrow> a < length h \<and> (case h ! a of Cell (KArray n) ps \<Rightarrow> True | _ \<Rightarrow> False)
      | Prim p \<Rightarrow> False)"

definition array_length :: "heap \<Rightarrow> nat \<Rightarrow> nat" where
  "array_length h a =
     (if a < length h then (case h ! a of Cell (KArray n) ps \<Rightarrow> n | _ \<Rightarrow> 0) else 0)"

text \<open>The own enumerable properties that \<^verbatim>\<open>{ ...doc }\<close> copies, and the allocation of the
  new object.\<close>

definition own_props :: "heap \<Rightarrow> hval \<Rightarrow> (string \<times> hval) list" where
  "own_props h v =
     (case v of
        Ref a \<Rightarrow> (if a < length h then (case h ! a of Cell k ps \<Rightarrow> ps) else [])
      | Prim (PStr s) \<Rightarrow> zip (map show_nat [0..<length s]) (map (\<lambda>c. Prim (PStr [c])) s)
      | Prim p \<Rightarrow> [])"

definition alloc :: "heap \<Rightarrow> cell \<Rightarrow> heap \<times> hval" where
  "alloc h c = (h @ [c], Ref (length h))"

text \<open>\<^verbatim>\<open>obj[key]\<close> where it can throw, and \<^verbatim>\<open>target[key] = value\<close>. Assigning to a
  property of a primitive throws in strict code, which a module is. An index at or past
  the length of an array extends it; assigning a length cuts the elements past it
  (the host's conversion of a length that is not a number is not modelled: the model
  answers as for an invalid length).\<close>

definition get_member :: "heap \<Rightarrow> hval \<Rightarrow> string \<Rightarrow> js_error + hval" where
  "get_member h obj key =
     (if obj = Prim PUndefined \<or> obj = Prim PNull then Inl TypeError
      else Inr (own_member h obj key))"

definition set_length :: "hval \<Rightarrow> (string \<times> hval) list \<Rightarrow> js_error + cell" where
  "set_length v ps =
     (case v of
        Prim (PNum (Fin r)) \<Rightarrow>
          if 0 \<le> r \<and> r < 4294967296 \<and> r = of_int (floor r)
          then Inr (Cell (KArray (nat (floor r)))
                      (filter (\<lambda>p. case read_index (fst p) of
                                       None \<Rightarrow> True | Some i \<Rightarrow> i < nat (floor r)) ps))
          else Inl RangeError
      | _ \<Rightarrow> Inl RangeError)"

definition set_member :: "heap \<Rightarrow> hval \<Rightarrow> string \<Rightarrow> hval \<Rightarrow> js_error + heap" where
  "set_member h target key v =
     (case target of
        Prim p \<Rightarrow> Inl TypeError
      | Ref a \<Rightarrow>
          (if a < length h then
             (case h ! a of
                Cell (KArray n) ps \<Rightarrow>
                  if key = ''length'' then
                    (case set_length v ps of Inl e \<Rightarrow> Inl e | Inr c \<Rightarrow> Inr (h[a := c]))
                  else (case read_index key of
                          Some i \<Rightarrow> Inr (h[a := Cell (KArray (max n (Suc i))) (obj_set ps key v)])
                        | None \<Rightarrow> Inr (h[a := Cell (KArray n) (obj_set ps key v)]))
              | Cell k ps \<Rightarrow> Inr (h[a := Cell k (obj_set ps key v)]))
           else Inl TypeError))"

text \<open>\<^verbatim>\<open>parts.reduce((obj, key) => obj[key], doc)\<close>\<close>

fun walk :: "heap \<Rightarrow> string list \<Rightarrow> hval \<Rightarrow> js_error + hval" where
  "walk h [] obj = Inr obj"
| "walk h (key # keys) obj =
     (case get_member h obj key of Inl e \<Rightarrow> Inl e | Inr next \<Rightarrow> walk h keys next)"

text \<open>\<^verbatim>\<open>_setFieldValue(doc, path, value)\<close>\<close>

definition set_field_value :: "heap \<Rightarrow> hval \<Rightarrow> string \<Rightarrow> hval \<Rightarrow> js_error + heap" where
  "set_field_value h doc path v =
     (case walk h (butlast (split_dots path)) doc of
        Inl e \<Rightarrow> Inl e
      | Inr target \<Rightarrow> set_member h target (last (split_dots path)) v)"

text \<open>The inner loop \<^verbatim>\<open>for (const item of array)\<close> over the array at address \<open>a\<close>: the
  iterator reads element \<open>i\<close> from the store as it is then, and stops at the length.
  The positions are those below the length at the start (the loop's assignments never
  extend the array it iterates).\<close>

fun unwind_array ::
    "heap \<Rightarrow> hval \<Rightarrow> string \<Rightarrow> nat \<Rightarrow> nat list \<Rightarrow> hval list \<Rightarrow> js_error + heap \<times> hval list" where
  "unwind_array h doc fieldPath a [] result = Inr (h, result)"
| "unwind_array h doc fieldPath a (i # rest) result =
     (if i < array_length h a then
        (case alloc h (Cell KObject (own_props h doc)) of
           (h1, newDoc) \<Rightarrow>
             (case set_field_value h1 newDoc fieldPath (own_member h (Ref a) (show_nat i)) of
                Inl e \<Rightarrow> Inl e
              | Inr h2 \<Rightarrow> unwind_array h2 doc fieldPath a rest (result @ [newDoc])))
      else Inr (h, result))"

text \<open>The outer loop \<^verbatim>\<open>for (const doc of docs)\<close>.\<close>

fun unwind_docs :: "heap \<Rightarrow> string \<Rightarrow> hval list \<Rightarrow> hval list \<Rightarrow> js_error + heap \<times> hval list" where
  "unwind_docs h fieldPath [] result = Inr (h, result)"
| "unwind_docs h fieldPath (doc # docs) result =
     (case get_field_value h doc fieldPath of
        Ref a \<Rightarrow>
          if is_array h (Ref a) then
            (case unwind_array h doc fieldPath a [0..<array_length h a] result of
               Inl e \<Rightarrow> Inl e
             | Inr (h1, result1) \<Rightarrow> unwind_docs h1 fieldPath docs result1)
          else unwind_docs h fieldPath docs (result @ [doc])
      | Prim p \<Rightarrow> unwind_docs h fieldPath docs (result @ [doc]))"

text \<open>\<^verbatim>\<open>_unwind(docs, path)\<close>\<close>

definition unwind :: "heap \<Rightarrow> hval list \<Rightarrow> string \<Rightarrow> js_error + heap \<times> hval list" where
  "unwind h docs path =
     unwind_docs h (if starts_with_dollar path then tl path else path) docs []"

subsection \<open>Between records as data and records in the store\<close>

text \<open>What \<^verbatim>\<open>JSON.parse\<close> builds for a value: every object and array is a new object of
  the store. (\<open>undefined\<close> and the members of \<^verbatim>\<open>Object.prototype\<close> do not occur in a
  parsed record.)\<close>

fun load :: "jsval \<Rightarrow> heap \<Rightarrow> heap \<times> hval"
  and load_elements :: "jsval list \<Rightarrow> nat \<Rightarrow> heap \<Rightarrow> heap \<times> (string \<times> hval) list"
  and load_props :: "(string \<times> jsval) list \<Rightarrow> heap \<Rightarrow> heap \<times> (string \<times> hval) list" where
  "load JUndefined h = (h, Prim PUndefined)"
| "load JNull h = (h, Prim PNull)"
| "load (JBool b) h = (h, Prim (PBool b))"
| "load (JNum n) h = (h, Prim (PNum n))"
| "load (JStr s) h = (h, Prim (PStr s))"
| "load (JBuiltin name) h = (h, Prim PUndefined)"
| "load (JDate d) h = alloc h (Cell (KDate d) [])"
| "load (JArr xs) h =
     (case load_elements xs 0 h of (h1, ps) \<Rightarrow> alloc h1 (Cell (KArray (length xs)) ps))"
| "load (JObj fs) h = (case load_props fs h of (h1, ps) \<Rightarrow> alloc h1 (Cell KObject ps))"
| "load_elements [] i h = (h, [])"
| "load_elements (x # xs) i h =
     (case load x h of (h1, v) \<Rightarrow>
        (case load_elements xs (Suc i) h1 of (h2, ps) \<Rightarrow> (h2, (show_nat i, v) # ps)))"
| "load_props [] h = (h, [])"
| "load_props (kv # fs) h =
     (case load (snd kv) h of (h1, v) \<Rightarrow>
        (case load_props fs h1 of (h2, ps) \<Rightarrow> (h2, (fst kv, v) # ps)))"

fun load_all :: "jsval list \<Rightarrow> heap \<Rightarrow> heap \<times> hval list" where
  "load_all [] h = (h, [])"
| "load_all (x # xs) h =
     (case load x h of (h1, v) \<Rightarrow> (case load_all xs h1 of (h2, vs) \<Rightarrow> (h2, v # vs)))"

text \<open>The reverse: the data a value of the store stands for, followed to the given depth
  (\<open>None\<close> when the depth does not suffice).\<close>

fun prim_value :: "prim \<Rightarrow> jsval" where
  "prim_value PUndefined = JUndefined"
| "prim_value PNull = JNull"
| "prim_value (PBool b) = JBool b"
| "prim_value (PNum n) = JNum n"
| "prim_value (PStr s) = JStr s"

fun those_props :: "(string \<times> 'a option) list \<Rightarrow> (string \<times> 'a) list option" where
  "those_props [] = Some []"
| "those_props ((k, None) # rest) = None"
| "those_props ((k, Some v) # rest) =
     (case those_props rest of None \<Rightarrow> None | Some ps \<Rightarrow> Some ((k, v) # ps))"

fun snapshot :: "nat \<Rightarrow> heap \<Rightarrow> hval \<Rightarrow> jsval option" where
  "snapshot depth h (Prim p) = Some (prim_value p)"
| "snapshot 0 h (Ref a) = None"
| "snapshot (Suc depth) h (Ref a) =
     (if a < length h then
        (case h ! a of
           Cell KObject ps \<Rightarrow>
             (case those_props (map (\<lambda>p. (fst p, snapshot depth h (snd p))) ps) of
                None \<Rightarrow> None | Some fs \<Rightarrow> Some (JObj fs))
         | Cell (KArray n) ps \<Rightarrow>
             (case those (map (\<lambda>i. snapshot depth h (lookup ps (show_nat i))) [0..<n]) of
                None \<Rightarrow> None | Some xs \<Rightarrow> Some (JArr xs))
         | Cell (KDate d) ps \<Rightarrow> Some (JDate d))
      else None)"

subsection \<open>The \<open>$group\<close> stage\<close>

text \<open>What \<^verbatim>\<open>group[field]\<close> holds: a primitive, or the fresh object \<open>{sum, count, value}\<close>
  of \<open>$avg\<close>, whose properties are primitives.\<close>

datatype acc = AccPrim prim | AccObj "(string \<times> prim) list"

text \<open>The host's arithmetic on values of any type: \<^verbatim>\<open>a + b\<close>, \<^verbatim>\<open>a / b\<close>, \<^verbatim>\<open>a++\<close>,
  \<^verbatim>\<open>Math.min(a, b)\<close> and \<^verbatim>\<open>Math.max(a, b)\<close>. Each answers a primitive; the right operand
  may be an object of the store.\<close>

record arith =
  js_plus :: "heap \<Rightarrow> acc \<Rightarrow> hval \<Rightarrow> prim"
  js_divide :: "prim \<Rightarrow> prim \<Rightarrow> prim"
  js_increment :: "prim \<Rightarrow> prim"
  math_min :: "heap \<Rightarrow> acc \<Rightarrow> hval \<Rightarrow> prim"
  math_max :: "heap \<Rightarrow> acc \<Rightarrow> hval \<Rightarrow> prim"

text \<open>An accumulator specification is an object such as \<open>{$sum: '$likes'}\<close>, given by its
  properties (one that is \<^verbatim>\<open>null\<close> or \<^verbatim>\<open>undefined\<close>, on which \<^verbatim>\<open>Object.keys\<close> throws, is not
  modelled); a grouping is the \<^verbatim>\<open>_id\<close> expression and the other entries in order.\<close>

type_synonym accumulator = "(string \<times> hval) list"

record grouping =
  g_id :: hval
  g_fields :: "(string \<times> accumulator) list"

text \<open>\<^verbatim>\<open>Object.keys(accumulator)[0]\<close> and \<^verbatim>\<open>spec[operator]\<close>\<close>

definition operator_of :: "accumulator \<Rightarrow> string option" where
  "operator_of spec = (case spec of [] \<Rightarrow> None | p # ps \<Rightarrow> Some (fst p))"

definition operand_of :: "accumulator \<Rightarrow> hval" where
  "operand_of spec = (case spec of [] \<Rightarrow> Prim PUndefined | p # ps \<Rightarrow> snd p)"

text \<open>\<^verbatim>\<open>_initializeAccumulator(accumulator)\<close>\<close>

definition initialize_accumulator :: "accumulator \<Rightarrow> acc" where
  "initialize_accumulator spec =
     (if operator_of spec = Some ''$sum'' then AccPrim (PNum (Fin 0))
      else if operator_of spec = Some ''$avg''
        then AccObj [(''sum'', PNum (Fin 0)), (''count'', PNum (Fin 0))]
      else if operator_of spec = Some ''$min'' then AccPrim (PNum PosInf)
      else if operator_of spec = Some ''$max'' then AccPrim (PNum NegInf)
      else AccPrim PNull)"

definition prop_of :: "(string \<times> prim) list \<Rightarrow> string \<Rightarrow> prim" where
  "prop_of ps key = (case map_of ps key of None \<Rightarrow> PUndefined | Some v \<Rightarrow> v)"

definition group_field :: "(string \<times> acc) list \<Rightarrow> string \<Rightarrow> acc" where
  "group_field g fld = (case map_of g fld of None \<Rightarrow> AccPrim PUndefined | Some v \<Rightarrow> v)"

text \<open>The three statements of the \<open>$avg\<close> case, on the object \<^verbatim>\<open>group[field]\<close>.\<close>

definition update_avg :: "arith \<Rightarrow> heap \<Rightarrow> (string \<times> prim) list \<Rightarrow> hval \<Rightarrow> (string \<times> prim) list" where
  "update_avg ar h obj v =
     (let o1 = obj_set obj ''sum'' (js_plus ar h (AccPrim (prop_of obj ''sum'')) v);
          o2 = obj_set o1 ''count'' (js_increment ar (prop_of o1 ''count''))
      in obj_set o2 ''value'' (js_divide ar (prop_of o2 ''sum'') (prop_of o2 ''count'')))"

text \<open>\<^verbatim>\<open>_updateAccumulator(group, field, spec, doc)\<close>. Under \<open>$avg\<close>, a \<^verbatim>\<open>group[field]\<close>
  that is a primitive makes \<^verbatim>\<open>group[field].sum += value\<close> throw.\<close>

definition update_accumulator ::
    "arith \<Rightarrow> heap \<Rightarrow> (string \<times> acc) list \<Rightarrow> string \<times> accumulator \<Rightarrow> hval
      \<Rightarrow> js_error + (string \<times> acc) list" where
  "update_accumulator ar h g entry doc =
     (let fld = fst entry; spec = snd entry;
          v = evaluate_expression h (operand_of spec) doc in
      if operator_of spec = Some ''$sum''
        then Inr (obj_set g fld (AccPrim (js_plus ar h (group_field g fld) v)))
      else if operator_of spec = Some ''$avg'' then
        (case group_field g fld of
           AccObj obj \<Rightarrow> Inr (obj_set g fld (AccObj (update_avg ar h obj v)))
         | AccPrim p \<Rightarrow> Inl TypeError)
      else if operator_of spec = Some ''$min''
        then Inr (obj_set g fld (AccPrim (math_min ar h (group_field g fld) v)))
      else if operator_of spec = Some ''$max''
        then Inr (obj_set g fld (AccPrim (math_max ar h (group_field g fld) v)))
      else Inr g)"

text \<open>The two inner loops over \<^verbatim>\<open>Object.entries(grouping)\<close> (the entry \<^verbatim>\<open>_id\<close> skipped):
  the new group, and the update of a group by one record. The assignments
  \<^verbatim>\<open>group[field] = ...\<close> define own properties of the group, as long as no field is named
  \<^verbatim>\<open>__proto__\<close>; the statements about groups below leave that name out.\<close>

definition new_group :: "(string \<times> accumulator) list \<Rightarrow> (string \<times> acc) list" where
  "new_group specs = fold (\<lambda>entry g. obj_set g (fst entry) (initialize_accumulator (snd entry))) specs []"

fun update_group ::
    "arith \<Rightarrow> heap \<Rightarrow> (string \<times> accumulator) list \<Rightarrow> hval \<Rightarrow> (string \<times> acc) list
      \<Rightarrow> js_error + (string \<times> acc) list" where
  "update_group ar h [] doc g = Inr g"
| "update_group ar h (entry # rest) doc g =
     (case update_accumulator ar h g entry doc of
        Inl e \<Rightarrow> Inl e
      | Inr g1 \<Rightarrow> update_group ar h rest doc g1)"

text \<open>The key of a record: \<^verbatim>\<open>grouping._id === null ? 'null' : this._evaluateExpression(...)\<close>\<close>

definition group_key :: "heap \<Rightarrow> grouping \<Rightarrow> hval \<Rightarrow> hval" where
  "group_key h grouping doc =
     (if g_id grouping = Prim PNull then Prim (PStr ''null'')
      else evaluate_expression h (g_id grouping) doc)"

text \<open>The Map \<^verbatim>\<open>groups\<close>, in insertion order. A Map compares keys by SameValueZero, which
  on these values is equality: primitives by value (NaN equal to itself), objects by
  reference.\<close>

type_synonym groups = "(hval \<times> (string \<times> acc) list) list"

fun map_set :: "('k \<times> 'v) list \<Rightarrow> 'k \<Rightarrow> 'v \<Rightarrow> ('k \<times> 'v) list" where
  "map_set [] key v = [(key, v)]"
| "map_set ((k, w) # rest) key v = (if k = key then (k, v) # rest else (k, w) # map_set rest key v)"

text \<open>One turn of the loop \<^verbatim>\<open>for (const doc of docs)\<close>. The group object is changed in
  place, which the model writes as storing it back under its key.\<close>

definition group_step :: "arith \<Rightarrow> heap \<Rightarrow> grouping \<Rightarrow> hval \<Rightarrow> groups \<Rightarrow> js_error + groups" where
  "group_step ar h grouping doc gs =
     (let key = group_key h grouping doc;
          gs1 = (if map_of gs key = None then map_set gs key (new_group (g_fields grouping)) else gs)
      in case map_of gs1 key of
           None \<Rightarrow> Inr gs1
         | Some g \<Rightarrow>
             (case update_group ar h (g_fields grouping) doc g of
                Inl e \<Rightarrow> Inl e
              | Inr g1 \<Rightarrow> Inr (map_set gs1 key g1)))"

fun group_loop :: "arith \<Rightarrow> heap \<Rightarrow> grouping \<Rightarrow> hval list \<Rightarrow> groups \<Rightarrow> js_error + groups" where
  "group_loop ar h grouping [] gs = Inr gs"
| "group_loop ar h grouping (doc # docs) gs =
     (case group_step ar h grouping doc gs of
        Inl e \<Rightarrow> Inl e
      | Inr gs1 \<Rightarrow> group_loop ar h grouping docs gs1)"

text \<open>An output record \<^verbatim>\<open>{ _id: key === 'null' ? null : key, ...value }\<close>: the \<^verbatim>\<open>_id\<close>, then
  the fields of the group.\<close>

record group_record =
  r_id :: hval
  r_fields :: "(string \<times> acc) list"

definition output_record :: "hval \<times> (string \<times> acc) list \<Rightarrow> group_record" where
  "output_record entry =
     \<lparr>r_id = (if fst entry = Prim (PStr ''null'') then Prim PNull else fst entry),
      r_fields = snd entry\<rparr>"

text \<open>\<^verbatim>\<open>_group(docs, grouping)\<close>\<close>

definition group :: "arith \<Rightarrow> heap \<Rightarrow> hval list \<Rightarrow> grouping \<Rightarrow> js_error + group_record list" where
  "group ar h docs grouping =
     (case group_loop ar h grouping docs [] of
        Inl e \<Rightarrow> Inl e
      | Inr gs \<Rightarrow> Inr (map output_record gs))"

text \<open>Records for the examples: tags at the top level, and tags inside a nested object.\<close>

definition flat_tags_docs :: "jsval list" where
  "flat_tags_docs = [JObj [(''_id'', JStr ''p1''), (''tags'', JArr [JStr ''x'', JStr ''y''])]]"

definition nested_tags_docs :: "jsval list" where
  "nested_tags_docs =
     [JObj [(''_id'', JStr ''p1''), (''meta'', JObj [(''tags'', JArr [JStr ''x'', JStr ''y''])])]]"

text \<open>\<^verbatim>\<open>_unwind\<close> on records as \<^verbatim>\<open>_find\<close> returns them, the result read back as data.\<close>

definition unwind_data :: "jsval list \<Rightarrow> string \<Rightarrow> nat \<Rightarrow> jsval list option" where
  "unwind_data docs path depth =
     (case load_all docs [] of
        (h, refs) \<Rightarrow>
          (case unwind h refs path of
             Inl e \<Rightarrow> None
           | Inr (h1, result) \<Rightarrow> those (map (snapshot depth h1) result)))"

section \<open>Schemas for the examples\<close>



section \<open>The collection file under create, update and delete\<close>


text \<open>The properties of a record after the reviver, and of a record as \<^verbatim>\<open>JSON.stringify\<close>
  writes it.\<close>

definition revive_fields :: "date_parser \<Rightarrow> jsobj \<Rightarrow> jsobj" where
  "revive_fields date_parse d = map (\<lambda>(k, v). (k, revive date_parse v)) d"

definition json_fields :: "jsobj \<Rightarrow> jsobj" where
  "json_fields d = concat (map (\<lambda>(k, v). case to_json v of None \<Rightarrow> [] | Some j \<Rightarrow> [(k, j)]) d)"

text \<open>The records that \<^verbatim>\<open>readJSON\<close> returns from a collection file, and the records the file
  holds after \<^verbatim>\<open>writeJSON(filePath, docs)\<close>.\<close>

definition read_records :: "date_parser \<Rightarrow> jsobj list \<Rightarrow> jsobj list" where
  "read_records date_parse stored = map (revive_fields date_parse) stored"

definition written_records :: "jsobj list \<Rightarrow> jsobj list" where
  "written_records docs = map json_fields docs"


text \<open>A stored record whose \<^verbatim>\<open>_id\<close> has the shape of a timestamp, of a month that does
  not exist.\<close>

definition dated_id_docs :: "jsobj list" where
  "dated_id_docs = [[(''_id'', JStr ''2020-13-01T00:00:00.000Z''), (''name'', JStr ''x'')]]"

section \<open>What the group stage builds\<close>

text \<open>The distinct elements of a list, in the order of their first occurrence.\<close>

definition first_seen :: "'a list \<Rightarrow> 'a list" where
  "first_seen xs = rev (remdups (rev xs))"

text \<open>The group that the records \<open>ds\<close> build when they are the records of one key: the
  new group, updated by each of them in order.\<close>

fun accumulate ::
    "arith \<Rightarrow> heap \<Rightarrow> (string \<times> accumulator) list \<Rightarrow> hval list \<Rightarrow> (string \<times> acc) list
      \<Rightarrow> js_error + (string \<times> acc) list" where
  "accumulate ar h specs [] g = Inr g"
| "accumulate ar h specs (doc # docs) g =
     (case update_group ar h specs doc g of
        Inl e \<Rightarrow> Inl e
      | Inr g1 \<Rightarrow> accumulate ar h specs docs g1)"

text \<open>Every field whose operator is \<open>$avg\<close> holds an object.\<close>

definition avg_fields_are_objects :: "(string \<times> accumulator) list \<Rightarrow> (string \<times> acc) list \<Rightarrow> bool" where
  "avg_fields_are_objects specs g =
     list_all (\<lambda>entry. operator_of (snd entry) = Some ''$avg'' \<longrightarrow>
                 (\<exists>obj. group_field g (fst entry) = AccObj obj)) specs"

text \<open>What holds of the Map after the records \<open>ds\<close>: its keys are the keys of the records
  in first-seen order, and the group under a key is what the records of that key build.\<close>

definition groups_of ::
    "arith \<Rightarrow> heap \<Rightarrow> grouping \<Rightarrow> hval list \<Rightarrow> groups \<Rightarrow> bool" where
  "groups_of ar h gr ds gs =
     (map fst gs = first_seen (map (group_key h gr) ds)
      \<and> (\<forall>k g. map_of gs k = Some g \<longrightarrow>
            avg_fields_are_objects (g_fields gr) g
            \<and> accumulate ar h (g_fields gr) (filter (\<lambda>d. group_key h gr d = k) ds)
                 (new_group (g_fields gr)) = Inr g))"

text \<open>The store does not hold what a value inherits from its prototype, so \<open>own_member\<close> is
  \<^verbatim>\<open>obj[key]\<close> only where no inherited member is read: where the property is an own
  property, the length of an array or a string, or an index; or where a plain object has
  no such property and \<^verbatim>\<open>Object.prototype\<close> has no member of that name either.\<close>

definition reads_own :: "heap \<Rightarrow> hval \<Rightarrow> string \<Rightarrow> bool" where
  "reads_own h obj key =
     (case obj of
        Ref a \<Rightarrow>
          a < length h \<and>
          (case h ! a of
             Cell KObject ps \<Rightarrow> has_key ps key \<or> key \<notin> set object_prototype_members
           | Cell (KArray n) ps \<Rightarrow> has_key ps key \<or> key = ''length'' \<or> read_index key \<noteq> None
           | Cell (KDate d) ps \<Rightarrow> has_key ps key)
      | Prim (PStr s) \<Rightarrow> key = ''length'' \<or> read_index key \<noteq> None
      | Prim p \<Rightarrow> False)"

text \<open>Every step of \<^verbatim>\<open>_getFieldValue\<close> along a path is such a read (a value that is not
  truthy ends the reads), and so is every path that a grouping has a record evaluated on:
  its \<^verbatim>\<open>_id\<close> expression and the operands of its accumulators.\<close>

fun resolves :: "heap \<Rightarrow> hval \<Rightarrow> string list \<Rightarrow> bool" where
  "resolves h obj [] = True"
| "resolves h obj (key # rest) =
     (if truthy_hval obj then reads_own h obj key \<and> resolves h (own_member h obj key) rest
      else True)"

definition expression_resolves :: "heap \<Rightarrow> hval \<Rightarrow> hval \<Rightarrow> bool" where
  "expression_resolves h expr doc =
     (case expr of
        Prim (PStr s) \<Rightarrow> if starts_with_dollar s then resolves h doc (split_dots (tl s)) else True
      | _ \<Rightarrow> True)"

definition reads_own_properties :: "heap \<Rightarrow> hval list \<Rightarrow> grouping \<Rightarrow> bool" where
  "reads_own_properties h docs grouping =
     list_all (\<lambda>doc. expression_resolves h (g_id grouping) doc
                  \<and> list_all (\<lambda>entry. expression_resolves h (operand_of (snd entry)) doc)
                        (g_fields grouping)) docs"

text \<open>A host for the examples, which only add finite numbers: on them \<^verbatim>\<open>a + b\<close> is the
  sum and \<^verbatim>\<open>a++\<close> the successor. On every other operation and operand it answers NaN,
  which a host need not do.\<close>

definition finite_arith :: arith where
  "finite_arith =
     \<lparr>js_plus = (\<lambda>h a v. case (a, v) of
                             (AccPrim (PNum (Fin x)), Prim (PNum (Fin y))) \<Rightarrow> PNum (Fin (x + y))
                           | _ \<Rightarrow> PNum NaN),
      js_divide = (\<lambda>a b. PNum NaN),
      js_increment = (\<lambda>a. case a of PNum (Fin x) \<Rightarrow> PNum (Fin (x + 1)) | _ \<Rightarrow> PNum NaN),
      math_min = (\<lambda>h a v. PNum NaN),
      math_max = (\<lambda>h a v. PNum NaN)\<rparr>"

text \<open>\<^verbatim>\<open>_group\<close> on records as \<^verbatim>\<open>_find\<close> returns them.\<close>

definition group_data :: "arith \<Rightarrow> jsval list \<Rightarrow> grouping \<Rightarrow> js_error + group_record list" where
  "group_data ar docs grouping = (case load_all docs [] of (h, refs) \<Rightarrow> group ar h refs grouping)"


definition tagged_docs :: "jsval list" where
  "tagged_docs =
     [JObj [(''tag'', JStr ''a''), (''v'', JNum (Fin 1))],
      JObj [(''tag'', JStr ''a''), (''v'', JNum (Fin 2))]]"

section \<open>Theorems: the shared predicate and queries\<close>

lemma filter_m_all: "filter_m (\<lambda>x. Inr True) xs = Inr xs"
  by (induction xs) simp_all

lemma filter_m_none: "filter_m (\<lambda>x. Inr False) xs = Inr []"
  by (induction xs) simp_all

lemma find_docs_no_conditions: "find_docs lt rx docs [] = Inr docs"
  by (simp add: find_docs_def match_query_def filter_m_all)

lemma match_condition_exists:
  "match_condition lt rx doc (path, JObj [(''$exists'', v)]) = Inr False"
  by (simp add: match_condition_def match_operator_def)

text \<open>
  C1 (the code departs from the claim). A criterion \<open>{$regex: pattern, $options: flags}\<close>,
  which is what \<^verbatim>\<open>QueryBuilder.regex\<close> writes, is never satisfied: \<^verbatim>\<open>$options\<close> is itself an
  entry of the criterion object, and the \<^verbatim>\<open>switch\<close> has no case for it, so the entry falls
  to \<^verbatim>\<open>default\<close>. Whatever the regular expression answers, the record does not match.
\<close>

theorem regex_with_options_never_matches:
  "match_query lt rx doc [(key, JObj [(''$regex'', pattern), (''$options'', flags)])] \<noteq> Inr True"
  by (simp add: match_query_def match_condition_def match_operator_def split: sum.splits)

theorem regex_with_options_example:
  "match_query (\<lambda>a b. None) (\<lambda>pattern flags subject. Inr True) [(''name'', JStr ''Alice'')]
     [(''name'', JObj [(''$regex'', JStr ''Ali''), (''$options'', JStr ''i'')])] = Inr False"
  using regex_with_options_never_matches
    [of "\<lambda>a b. None" "\<lambda>pattern flags subject. Inr True" "[(''name'', JStr ''Alice'')]" "''name''"
        "JStr ''Ali''" "JStr ''i''"]
  by (simp add: match_query_def match_condition_def match_operator_def)

lemma assign_fresh_conditions:
  "assign [] path v = (if path = ''__proto__'' then [] else [(path, v)])"
  by (simp add: assign_def has_key_def)

text \<open>
  C9 (as amended). Over every collection, a query built with
  \<^verbatim>\<open>find().where(path).exists(v)\<close> returns the empty sequence for every path other than
  \<^verbatim>\<open>__proto__\<close>, whatever \<open>v\<close> is: the condition \<open>{$exists: v}\<close> is an operator \<^verbatim>\<open>_matchQuery\<close>
  does not know, and no record satisfies it. For the path \<^verbatim>\<open>__proto__\<close> the assignment
  \<^verbatim>\<open>conditions[path] = {$exists: v}\<close> replaces the prototype of the conditions and adds
  no entry, so the query has no condition and returns every record.
\<close>

theorem exists_matches_no_record:
  "exec lt rx populate_doc docs (qb_exists (where_path (model_find []) path) v) =
     (if path = ''__proto__'' then Inr (map new_document docs) else Inr [])"
  by (simp add: exec_def model_find_def where_path_def qb_exists_def set_condition_def
      assign_fresh_conditions find_docs_def match_query_def match_condition_exists
      filter_m_none filter_m_all)

theorem exists_matches_no_record_witness:
  "exec (\<lambda>a b. None) (\<lambda>pattern flags subject. Inr True) (\<lambda>paths d. d)
     [[(''_id'', JStr ''a''), (''age'', JNum (Fin 3))], [(''_id'', JStr ''b'')]]
     (qb_exists (where_path (model_find []) ''age'') (JBool True)) = Inr []"
  using exists_matches_no_record
    [of "\<lambda>a b. None" "\<lambda>pattern flags subject. Inr True" "\<lambda>paths d. d"
        "[[(''_id'', JStr ''a''), (''age'', JNum (Fin 3))], [(''_id'', JStr ''b'')]]" "''age''"
        "JBool True"]
  by simp

text \<open>The claim as stated fails at the path \<^verbatim>\<open>__proto__\<close>: over a collection of two records,
  \<^verbatim>\<open>find().where('__proto__').exists(true).exec()\<close> returns both.\<close>

theorem exists_proto_path_counterexample:
  "exec (\<lambda>a b. None) (\<lambda>pattern flags subject. Inr True) (\<lambda>paths d. d)
     [[(''_id'', JStr ''a''), (''age'', JNum (Fin 3))], [(''_id'', JStr ''b'')]]
     (qb_exists (where_path (model_find []) ''__proto__'') (JBool True)) =
   Inr [new_document [(''_id'', JStr ''a''), (''age'', JNum (Fin 3))],
        new_document [(''_id'', JStr ''b'')]]"
  by (simp add: exec_def model_find_def where_path_def qb_exists_def set_condition_def
      assign_def has_key_def find_docs_def match_query_def)

text \<open>
  C4 (as amended). For non-negative \<open>s\<close> and \<open>l\<close>, \<^verbatim>\<open>find().exec()\<close> returns every record
  wrapped as a Document, and \<^verbatim>\<open>find().skip(s).limit(l).exec()\<close> returns the window
  \<open>[s, s + l)\<close> of that sequence when \<open>l\<close> is positive; \<^verbatim>\<open>limit(0)\<close> sets no limit, so the
  result is then everything from position \<open>s\<close> on. No \<open>s\<close> or \<open>l\<close> raises an error, and
  an \<open>s\<close> at or beyond the length gives the empty result.
\<close>

theorem skip_limit_window:
  assumes "0 \<le> s" and "0 \<le> l"
  shows "exec lt rx populate_doc docs (model_find []) = Inr (map new_document docs)
       \<and> exec lt rx populate_doc docs (limit (skip (model_find []) s) l) =
           Inr (if l = 0 then drop (nat s) (map new_document docs)
                else slice_window (map new_document docs) (nat s) (nat l))
       \<and> (if int (length docs) \<le> s
          then exec lt rx populate_doc docs (limit (skip (model_find []) s) l) = Inr []
          else True)"
  using assms
  by (simp add: exec_def model_find_def skip_def limit_def find_docs_no_conditions
      slice_from_def slice_to_def slice_window_def drop_map take_map)

theorem skip_limit_window_witness:
  "exec (\<lambda>a b. None) (\<lambda>pattern flags subject. Inr True) (\<lambda>paths d. d)
     [[(''_id'', JStr ''a'')], [(''_id'', JStr ''b'')], [(''_id'', JStr ''c'')]]
     (limit (skip (model_find []) 1) 1) = Inr [new_document [(''_id'', JStr ''b'')]]"
  using skip_limit_window
    [of 1 1 "\<lambda>a b. None" "\<lambda>pattern flags subject. Inr True" "\<lambda>paths d. d"
        "[[(''_id'', JStr ''a'')], [(''_id'', JStr ''b'')], [(''_id'', JStr ''c'')]]"]
  by (simp add: slice_window_def)

text \<open>The claim as stated fails at \<open>l = 0\<close>: over a collection of one record,
  \<^verbatim>\<open>find().skip(0).limit(0).exec()\<close> returns that record, while the window \<open>[0, 0)\<close> of
  what \<^verbatim>\<open>find().exec()\<close> returns is empty.\<close>

theorem limit_zero_counterexample:
  "exec (\<lambda>a b. None) (\<lambda>pattern flags subject. Inr True) (\<lambda>paths d. d) [[(''_id'', JStr ''a'')]]
     (model_find []) = Inr [new_document [(''_id'', JStr ''a'')]]
   \<and> exec (\<lambda>a b. None) (\<lambda>pattern flags subject. Inr True) (\<lambda>paths d. d) [[(''_id'', JStr ''a'')]]
       (limit (skip (model_find []) 0) 0) = Inr [new_document [(''_id'', JStr ''a'')]]
   \<and> slice_window [new_document [(''_id'', JStr ''a'')]] 0 0 = []"
  by (simp add: exec_def model_find_def skip_def limit_def find_docs_no_conditions slice_window_def)


section \<open>Theorems: validators\<close>

lemma run_validator_middle:
  assumes "v_validator v ctx val \<noteq> Thenable" and "dv_completed st + 1 \<noteq> n"
  shows "run_validator ft path n ctx val (i, v) st =
           (st\<lparr>dv_invoked := dv_invoked st @ [i], dv_completed := dv_completed st + 1,
               dv_err := err_after path ctx val (dv_err st) v\<rparr>, False)"
  using assms
  by (cases "v_validator v ctx val")
     (auto simp: run_validator_def validator_wrapper_def Let_def err_after_def validator_fails_def
        message_of_def split: option.splits)

lemma run_validator_last:
  assumes "v_validator v ctx val \<noteq> Thenable" and "dv_completed st + 1 = n"
  shows "dv_reported (fst (run_validator ft path n ctx val (i, v) st)) =
           dv_reported st @ [err_after path ctx val (dv_err st) v]"
    and "dv_invoked (fst (run_validator ft path n ctx val (i, v) st)) = dv_invoked st @ [i]"
  using assms
  by (cases "v_validator v ctx val";
      auto simp: run_validator_def validator_wrapper_def Let_def err_after_def validator_fails_def
        message_of_def split: option.splits)+

lemma err_fold_Some: "err_fold path ctx val (Some e) vs = Some e"
  by (induction vs) (simp_all add: err_after_def)

lemma err_fold_None: "err_fold path ctx val None vs = first_failure path ctx val vs"
  by (induction vs) (simp_all add: err_after_def first_failure_def err_fold_Some)

lemma upt_head: "[k..<k + Suc m] = k # [Suc k..<Suc k + m]"
  by (subst upt_rec) simp

lemma run_validators_sync:
  assumes "synchronous ctx val rest" and "rest \<noteq> []"
    and "dv_completed st + length rest = n"
  shows "dv_reported (fst (run_validators ft path n ctx val (zip [k..<k + length rest] rest) st)) =
           dv_reported st @ [err_fold path ctx val (dv_err st) rest]
       \<and> dv_invoked (fst (run_validators ft path n ctx val (zip [k..<k + length rest] rest) st)) =
           dv_invoked st @ [k..<k + length rest]"
  using assms
proof (induction rest arbitrary: st k)
  case Nil
  then show ?case by simp
next
  case (Cons v rest)
  have sync_v: "v_validator v ctx val \<noteq> Thenable"
    using Cons.prems(1) by (simp add: synchronous_def)
  have upt_eq: "[k..<k + length (v # rest)] = k # [Suc k..<Suc k + length rest]"
    using upt_head[of k "length rest"] by simp
  show ?case
  proof (cases "rest = []")
    case True
    then have last: "dv_completed st + 1 = n" using Cons.prems(3) by simp
    obtain st1 threw where r: "run_validator ft path n ctx val (k, v) st = (st1, threw)"
      by (cases "run_validator ft path n ctx val (k, v) st")
    from run_validator_last[OF sync_v last, of ft path k] r
    have "dv_reported st1 = dv_reported st @ [err_after path ctx val (dv_err st) v]"
      and "dv_invoked st1 = dv_invoked st @ [k]" by simp_all
    with True r show ?thesis by simp
  next
    case False
    then have mid: "dv_completed st + 1 \<noteq> n" using Cons.prems(3) by (cases rest) auto
    let ?st1 = "st\<lparr>dv_invoked := dv_invoked st @ [k], dv_completed := dv_completed st + 1,
               dv_err := err_after path ctx val (dv_err st) v\<rparr>"
    have step: "run_validator ft path n ctx val (k, v) st = (?st1, False)"
      by (rule run_validator_middle[OF sync_v mid])
    have sync_rest: "synchronous ctx val rest"
      using Cons.prems(1) by (simp add: synchronous_def)
    have len: "dv_completed ?st1 + length rest = n" using Cons.prems(3) by simp
    have run: "run_validators ft path n ctx val (zip [k..<k + length (v # rest)] (v # rest)) st =
                 run_validators ft path n ctx val (zip [Suc k..<Suc k + length rest] rest) ?st1"
      unfolding upt_eq by (simp add: step del: upt_Suc)
    from Cons.IH[OF sync_rest False len, of "Suc k"]
    show ?thesis
      unfolding run by (simp add: upt_conv_Cons del: upt_Suc)
  qed
qed

theorem do_validate_sync:
  assumes "synchronous ctx val (st_validators st)"
  shows "dv_reported (fst (do_validate ft st val ctx)) =
           [first_failure (st_path st) ctx val (st_validators st)]
       \<and> dv_invoked (fst (do_validate ft st val ctx)) = [0..<length (st_validators st)]"
proof (cases "st_validators st = []")
  case True
  then show ?thesis by (simp add: do_validate_def first_failure_def)
next
  case False
  from run_validators_sync[OF assms False, of _ "length (st_validators st)" ft "st_path st" 0]
  show ?thesis using False
    by (simp add: do_validate_def Let_def err_fold_None)
qed

lemma st_path_required [simp]: "st_path (required st flag) = st_path st"
  by (simp add: required_def)

lemma st_path_add_validator [simp]: "st_path (add_validator st obj) = st_path st"
  by (simp add: add_validator_def split: validate_arg.splits option.splits)

lemma st_path_add_setter [simp]: "st_path (add_setter st f) = st_path st"
  by (simp add: add_setter_def)

lemma required_first_required: "required_first st \<Longrightarrow> required_first (required st flag)"
proof (cases flag)
  case True
  assume "required_first st"
  then obtain m rest where vs: "st_validators st = replicate m (required_validator (st_path st)) @ rest"
    and rest: "list_all (\<lambda>v. \<not> v_isRequired v) rest"
    by (auto simp: required_first_def)
  have "st_validators (required st flag) =
          replicate (Suc m) (required_validator (st_path (required st flag))) @ rest"
    using True vs by (simp add: required_def)
  with rest show ?thesis unfolding required_first_def by blast
next
  case False
  assume "required_first st"
  then show ?thesis using False by (simp add: required_def)
qed

lemma required_first_push:
  assumes "required_first st" and "\<not> v_isRequired v"
  shows "required_first (st\<lparr>st_validators := st_validators st @ [v]\<rparr>)"
proof -
  from assms(1) obtain m rest where vs: "st_validators st = replicate m (required_validator (st_path st)) @ rest"
    and rest: "list_all (\<lambda>v. \<not> v_isRequired v) rest"
    by (auto simp: required_first_def)
  have "st_validators (st\<lparr>st_validators := st_validators st @ [v]\<rparr>) =
          replicate m (required_validator (st_path (st\<lparr>st_validators := st_validators st @ [v]\<rparr>))) @ (rest @ [v])"
    using vs by simp
  moreover have "list_all (\<lambda>v. \<not> v_isRequired v) (rest @ [v])"
    using rest assms(2) by simp
  ultimately show ?thesis unfolding required_first_def by blast
qed

lemma required_first_add_validator:
  "required_first st \<Longrightarrow> required_first (add_validator st obj)"
  by (auto simp: add_validator_def create_validator_def intro!: required_first_push
      split: validate_arg.splits option.splits)

lemma required_first_add_setter: "required_first st \<Longrightarrow> required_first (add_setter st f)"
  by (simp add: required_first_def add_setter_def)

lemma required_first_new: "required_first (new_schematype path options)"
proof -
  have "required_first \<lparr>st_path = path, st_validators = [], st_setters = []\<rparr>"
    unfolding required_first_def by (rule exI[of _ 0]) simp
  then show ?thesis
    by (auto simp: new_schematype_def Let_def split: option.splits
        intro!: required_first_add_setter required_first_add_validator required_first_required)
qed

lemma required_first_calls: "required_first st \<Longrightarrow> required_first (apply_calls st calls)"
  unfolding apply_calls_def
proof (induction calls arbitrary: st)
  case Nil
  then show ?case by simp
next
  case (Cons c calls)
  have "required_first (apply_call st c)"
    using Cons.prems
    by (cases c) (simp_all add: required_first_required required_first_add_validator
        required_first_add_setter)
  then show ?case using Cons.IH by simp
qed

lemma st_path_calls: "st_path (apply_calls st calls) = st_path st"
  unfolding apply_calls_def
proof (induction calls arbitrary: st)
  case Nil
  then show ?case by simp
next
  case (Cons c calls)
  then show ?case by (cases c) simp_all
qed

lemma st_path_new: "st_path (new_schematype path options) = path"
  by (simp add: new_schematype_def Let_def split: option.splits)

lemma required_first_hd:
  assumes "required_first st" and "is_required st"
  shows "st_validators st \<noteq> [] \<and> hd (st_validators st) = required_validator (st_path st)"
proof -
  from assms(1) obtain m rest where vs: "st_validators st = replicate m (required_validator (st_path st)) @ rest"
    and rest: "list_all (\<lambda>v. \<not> v_isRequired v) rest"
    by (auto simp: required_first_def)
  have "m \<noteq> 0"
  proof
    assume "m = 0"
    with vs rest assms(2) show False
      by (simp add: is_required_def list_ex_iff list_all_iff)
  qed
  then obtain m' where "m = Suc m'" by (cases m) auto
  with vs show ?thesis by simp
qed

text \<open>
  C8. For a SchemaType as the constructor and any later calls of \<^verbatim>\<open>required\<close>, \<^verbatim>\<open>validate\<close>
  and \<^verbatim>\<open>set\<close> leave it, whose validators all answer synchronously on the value:
  \<^verbatim>\<open>doValidate\<close> calls every validator, in registration order, whatever the earlier ones
  answered; it reports to \<^verbatim>\<open>fn\<close> exactly once, \<^verbatim>\<open>null\<close> when no validator returned
  \<^verbatim>\<open>false\<close> or threw, and otherwise the message of the first one that did; and when the
  field is required, the first validator of the list, hence the first one called, is the
  built-in \<^verbatim>\<open>v => v != null\<close>, which answers whether the value is neither \<^verbatim>\<open>null\<close> nor
  \<^verbatim>\<open>undefined\<close>. This holds whether or not \<^verbatim>\<open>fn\<close> itself throws.
\<close>

theorem do_validate_reports_first_failure:
  assumes "synchronous ctx val (st_validators (apply_calls (new_schematype path options) calls))"
  shows "dv_invoked (fst (do_validate fn_throws (apply_calls (new_schematype path options) calls) val ctx)) =
           [0..<length (st_validators (apply_calls (new_schematype path options) calls))]
       \<and> dv_reported (fst (do_validate fn_throws (apply_calls (new_schematype path options) calls) val ctx)) =
           [first_failure path ctx val (st_validators (apply_calls (new_schematype path options) calls))]
       \<and> (if is_required (apply_calls (new_schematype path options) calls)
          then st_validators (apply_calls (new_schematype path options) calls) \<noteq> []
             \<and> hd (st_validators (apply_calls (new_schematype path options) calls)) = required_validator path
             \<and> hd (dv_invoked (fst (do_validate fn_throws (apply_calls (new_schematype path options) calls) val ctx))) = 0
             \<and> v_validator (hd (st_validators (apply_calls (new_schematype path options) calls))) ctx val =
                   Returned (JBool (\<not> is_nullish val))
          else True)"
proof -
  let ?st = "apply_calls (new_schematype path options) calls"
  have p: "st_path ?st = path" by (simp add: st_path_calls st_path_new)
  have rf: "required_first ?st" by (rule required_first_calls[OF required_first_new])
  note dv = do_validate_sync[OF assms, of fn_throws]
  show ?thesis
  proof (cases "is_required ?st")
    case True
    from required_first_hd[OF rf True] have ne: "st_validators ?st \<noteq> []"
      and h: "hd (st_validators ?st) = required_validator path" by (simp_all add: p)
    from ne have "hd [0..<length (st_validators ?st)] = 0"
      by (cases "st_validators ?st") (simp_all add: upt_conv_Cons del: upt_Suc)
    have "v_validator (required_validator path) ctx val = Returned (JBool (\<not> is_nullish val))"
      by (simp add: required_validator_def)
    with dv True ne h show ?thesis by (simp add: p)
  next
    case False
    with dv show ?thesis by (simp add: p)
  qed
qed

theorem do_validate_reports_first_failure_witness:
  "dv_invoked (fst (do_validate (\<lambda>err. False)
      (apply_calls
         (new_schematype ''age''
            \<lparr>o_type = TNumber, o_required = True, o_default = NoDefault,
             o_validate = ValidatorObject (Some (\<lambda>ctx v. Returned (JBool False))) ''too small'',
             o_set = None\<rparr>)
         [CallValidate (ValidatorFunction (\<lambda>ctx v. Threw))])
      (JNum (Fin 5)) [])) = [0, 1, 2]
   \<and> dv_reported (fst (do_validate (\<lambda>err. False)
      (apply_calls
         (new_schematype ''age''
            \<lparr>o_type = TNumber, o_required = True, o_default = NoDefault,
             o_validate = ValidatorObject (Some (\<lambda>ctx v. Returned (JBool False))) ''too small'',
             o_set = None\<rparr>)
         [CallValidate (ValidatorFunction (\<lambda>ctx v. Threw))])
      (JNum (Fin 5)) [])) = [Some ''too small'']"
  using do_validate_reports_first_failure
    [where ctx = "[]" and val = "JNum (Fin 5)" and path = "''age''"
       and options = "\<lparr>o_type = TNumber, o_required = True, o_default = NoDefault,
             o_validate = ValidatorObject (Some (\<lambda>ctx v. Returned (JBool False))) ''too small'',
             o_set = None\<rparr>"
       and calls = "[CallValidate (ValidatorFunction (\<lambda>ctx v. Threw))]"
       and fn_throws = "\<lambda>err. False"]
  by (simp add: synchronous_def apply_calls_def new_schematype_def required_def add_validator_def
      create_validator_def required_validator_def first_failure_def validator_fails_def
      message_of_def is_required_def)


section \<open>Theorems: validation and create\<close>






























section \<open>Theorems: the round trip through the file\<close>

lemma round_trip_value:
  "round_trips dp v \<Longrightarrow> (\<exists>j. to_json v = Some j \<and> revive dp j = v)"
proof (induction v)
  case (JArr xs)
  have each: "revive dp (case to_json x of None \<Rightarrow> JNull | Some j \<Rightarrow> j) = x" if "x \<in> set xs" for x
  proof -
    from that JArr.prems have "round_trips dp x" by (simp add: list_all_iff)
    from JArr.IH[OF that this] show ?thesis by auto
  qed
  have "map (revive dp) (map (\<lambda>x. case to_json x of None \<Rightarrow> JNull | Some j \<Rightarrow> j) xs) = xs"
    using each by (simp add: map_idI)
  then show ?case by simp
next
  case (JObj fs)
  have each: "\<exists>j. to_json (snd kv) = Some j \<and> revive dp j = snd kv" if "kv \<in> set fs" for kv
  proof -
    from that JObj.prems have "round_trips dp (snd kv)"
      by (cases kv) (auto simp: list_all_iff)
    moreover have "snd kv \<in> Basic_BNFs.snds kv" by (cases kv) simp
    ultimately show ?thesis using JObj.IH[OF that] by blast
  qed
  have "map (\<lambda>(k, v). (k, revive dp v))
          (concat (map (\<lambda>(k, v). case to_json v of None \<Rightarrow> [] | Some j \<Rightarrow> [(k, j)]) fs)) = fs"
    using each
  proof (induction fs)
    case Nil
    then show ?case by simp
  next
    case (Cons kv fs)
    obtain k v where kv: "kv = (k, v)" by (cases kv)
    from Cons.prems[of kv] kv obtain j where "to_json v = Some j" "revive dp j = v" by auto
    moreover have "map (\<lambda>(k, v). (k, revive dp v))
          (concat (map (\<lambda>(k, v). case to_json v of None \<Rightarrow> [] | Some j \<Rightarrow> [(k, j)]) fs)) = fs"
      using Cons.IH Cons.prems by simp
    ultimately show ?case using kv by simp
  qed
  then show ?case by simp
qed (auto split: jsnum.splits jsdate.splits)

text \<open>
  C6 (as amended). A sequence of records comes back from the file as it went in, its
  dates as dates, when every value in it can be carried by JSON (nothing undefined, no
  number that is not finite, no invalid date), no string in it has the shape of an
  ISO-8601 timestamp, and every date's ISO-8601 text has that shape (its year has four
  digits) and is parsed back by the host to the same instant.
\<close>

theorem write_then_read:
  assumes "list_all (\<lambda>doc. round_trips date_parse (JObj doc)) docs"
  shows "\<exists>f. write_json reason filePath (JArr (map JObj docs)) = Inr f
           \<and> read_json date_parse f = (Inr (JArr (map JObj docs)), f)"
proof -
  have "round_trips date_parse (JArr (map JObj docs))"
    using assms by (simp add: list_all_iff)
  from round_trip_value[OF this] obtain j where "to_json (JArr (map JObj docs)) = Some j"
    and "revive date_parse j = JArr (map JObj docs)" by blast
  then show ?thesis by (simp add: write_json_def read_json_def)
qed

lemmas iso_text_eval =
  to_iso_string_def civil_from_days_def civil_of_era_day_def civil_date_def civil_month_def
  month_from_march_def day_of_year_def year_of_era_def format_iso_def year_text_def
  pad2_def pad3_def pad4_def pad6_def show_nat.simps digit_char_def

lemmas iso_parse_eval =
  iso_date_parse_def iso_like_def iso_pattern_def is_digit_def date_of_fields_def read_nat_def
  days_in_month_def days_from_civil_def days_of_era_def

lemma iso_text_2020: "to_iso_string 1577836800000 = ''2020-01-01T00:00:00.000Z''"
  by (simp add: iso_text_eval)

lemma iso_text_10000: "to_iso_string 253402300800000 = ''+010000-01-01T00:00:00.000Z''"
  by (simp add: iso_text_eval)

lemma iso_parse_2020: "iso_date_parse ''2020-01-01T00:00:00.000Z'' = Time 1577836800000"
  by (simp add: iso_parse_eval)

lemma iso_like_2020: "iso_like ''2020-01-01T00:00:00.000Z''"
  by (simp add: iso_like_def iso_pattern_def is_digit_def)

lemma not_iso_like_10000: "\<not> iso_like ''+010000-01-01T00:00:00.000Z''"
  by (simp add: iso_like_def iso_pattern_def is_digit_def)

theorem write_then_read_witness:
  "write_json ''EACCES'' ''db/Post.json'' (JArr (map JObj dated_docs)) =
     Inr (Stored (Json (JArr [JObj [(''_id'', JStr ''a''),
                                    (''createdAt'', JStr ''2020-01-01T00:00:00.000Z''),
                                    (''likes'', JNum (Fin 3))]])))
   \<and> read_json iso_date_parse
        (Stored (Json (JArr [JObj [(''_id'', JStr ''a''),
                                   (''createdAt'', JStr ''2020-01-01T00:00:00.000Z''),
                                   (''likes'', JNum (Fin 3))]]))) =
       (Inr (JArr (map JObj dated_docs)),
        Stored (Json (JArr [JObj [(''_id'', JStr ''a''),
                                  (''createdAt'', JStr ''2020-01-01T00:00:00.000Z''),
                                  (''likes'', JNum (Fin 3))]])))"
proof -
  have h: "list_all (\<lambda>doc. round_trips iso_date_parse (JObj doc)) dated_docs"
    by (simp add: dated_docs_def iso_text_2020 iso_parse_2020 iso_like_def iso_pattern_def is_digit_def)
  have w: "write_json ''EACCES'' ''db/Post.json'' (JArr (map JObj dated_docs)) =
     Inr (Stored (Json (JArr [JObj [(''_id'', JStr ''a''),
                                    (''createdAt'', JStr ''2020-01-01T00:00:00.000Z''),
                                    (''likes'', JNum (Fin 3))]])))"
    by (simp add: write_json_def dated_docs_def iso_text_2020)
  from write_then_read[OF h, of "''EACCES''" "''db/Post.json''"] w
  show ?thesis by auto
qed

text \<open>The claim as stated fails twice over: a string of the timestamp shape is loaded as a
  Date, and a date in the year 10000, whose ISO-8601 text starts with a sign and six
  digits, is loaded as that text.\<close>

theorem timestamp_text_counterexample:
  "write_json ''EACCES'' ''db/Post.json'' (JArr (map JObj timestamp_text_docs)) =
     Inr (Stored (Json (JArr (map JObj timestamp_text_docs))))
   \<and> fst (read_json iso_date_parse (Stored (Json (JArr (map JObj timestamp_text_docs))))) =
       Inr (JArr [JObj [(''title'', JStr ''launch''), (''when'', JDate (Time 1577836800000))]])
   \<and> JArr [JObj [(''title'', JStr ''launch''), (''when'', JDate (Time 1577836800000))]]
       \<noteq> JArr (map JObj timestamp_text_docs)
   \<and> write_json ''EACCES'' ''db/Post.json'' (JArr (map JObj far_future_docs)) =
       Inr (Stored (Json (JArr [JObj [(''due'', JStr ''+010000-01-01T00:00:00.000Z'')]])))
   \<and> fst (read_json iso_date_parse
             (Stored (Json (JArr [JObj [(''due'', JStr ''+010000-01-01T00:00:00.000Z'')]])))) =
       Inr (JArr [JObj [(''due'', JStr ''+010000-01-01T00:00:00.000Z'')]])"
  by (simp add: write_json_def read_json_def timestamp_text_docs_def far_future_docs_def
      iso_parse_2020 iso_text_10000 iso_like_def iso_pattern_def is_digit_def)


section \<open>Theorems: identifiers under create, update and delete\<close>




























text \<open>Why the stored ids must not be shaped like timestamps: such an \<^verbatim>\<open>_id\<close> is read as a
  Date, and the next write stores the Date's text, or \<^verbatim>\<open>null\<close> for an invalid one. Here the
  update document has no \<^verbatim>\<open>_id\<close> key, and the parser is the one of the examples.\<close>

lemma timestamp_shaped_id_is_rewritten:
  "(case update_one (\<lambda>a b. None) (\<lambda>pattern flags subject. Inr True)
          (read_records iso_date_parse dated_id_docs)
          [(''name'', JStr ''x'')] [(''name'', JStr ''z'')] (Time 0) of
      Inr (Some written, n) \<Rightarrow> ids (written_records written) = [JNull] \<and> n = 1
    | _ \<Rightarrow> False)
   \<and> ids dated_id_docs = [JStr ''2020-13-01T00:00:00.000Z'']"
  by (simp add: update_one_def dated_id_docs_def read_records_def revive_fields_def iso_like_def
      iso_pattern_def iso_parse_eval match_query_def match_condition_def get_prop_def spread_def
      ids_def written_records_def json_fields_def)

section \<open>Theorems: the unwind stage\<close>

text \<open>A path without dots: each copy gets its own element.\<close>

lemma unwind_top_level_path:
  "unwind_data flat_tags_docs ''$tags'' 3 =
     Some [JObj [(''_id'', JStr ''p1''), (''tags'', JStr ''x'')],
           JObj [(''_id'', JStr ''p1''), (''tags'', JStr ''y'')]]"
  by code_simp

text \<open>
  C5 (the code departs from the claim). With a dotted path the k output records do not
  hold one element each. \<^verbatim>\<open>{ ...doc }\<close> copies only the top level, so every copy refers to
  the same nested object as the input record, and \<^verbatim>\<open>_setFieldValue\<close> assigns each
  element in turn into that one object: after the loop every output record (and the
  input record) holds the last element. Here the record
  \<open>{_id: 'p1', meta: {tags: ['x', 'y']}}\<close> unwound on \<open>$meta.tags\<close> gives two records
  that both have \<open>meta.tags = 'y'\<close>.
\<close>

theorem unwind_dotted_path_shares_nested_object:
  "unwind_data nested_tags_docs ''$meta.tags'' 3 =
     Some [JObj [(''_id'', JStr ''p1''), (''meta'', JObj [(''tags'', JStr ''y'')])],
           JObj [(''_id'', JStr ''p1''), (''meta'', JObj [(''tags'', JStr ''y'')])]]"
  by code_simp


section \<open>Theorems: the group stage\<close>

lemma first_seen_snoc:
  "first_seen (xs @ [x]) = (if x \<in> set xs then first_seen xs else first_seen xs @ [x])"
  by (simp add: first_seen_def)

lemma first_seen_distinct: "distinct (first_seen xs)"
  by (simp add: first_seen_def)

lemma first_seen_set: "set (first_seen xs) = set xs"
  by (simp add: first_seen_def)

lemma map_of_map_set: "map_of (map_set gs k v) = (map_of gs)(k \<mapsto> v)"
  by (induction gs k v rule: map_set.induct) auto

lemma keys_map_set:
  "map fst (map_set gs k v) = (if k \<in> set (map fst gs) then map fst gs else map fst gs @ [k])"
  by (induction gs k v rule: map_set.induct) auto

lemma group_field_obj_set:
  "group_field (obj_set g f v) f' = (if f' = f then v else group_field g f')"
  by (induction g f v rule: obj_set.induct) (auto simp: group_field_def)

lemma keys_obj_set:
  "map fst (obj_set g f v) = (if f \<in> set (map fst g) then map fst g else map fst g @ [f])"
  by (induction g f v rule: obj_set.induct) auto

lemma spec_unique:
  assumes "distinct (map fst specs)" and "entry \<in> set specs" and "other \<in> set specs"
    and "fst other = fst entry"
  shows "other = entry"
  using assms by (metis eq_key_imp_eq_value prod.collapse)

lemma update_accumulator_ok:
  assumes inv: "avg_fields_are_objects specs g" and mem: "entry \<in> set specs"
    and dist: "distinct (map fst specs)"
  shows "\<exists>g1. update_accumulator ar h g entry doc = Inr g1 \<and> avg_fields_are_objects specs g1"
proof -
  have keep: "avg_fields_are_objects specs (obj_set g (fst entry) v)"
    if "operator_of (snd entry) = Some ''$avg'' \<Longrightarrow> \<exists>obj. v = AccObj obj" for v
    unfolding avg_fields_are_objects_def list_all_iff
  proof (intro ballI impI)
    fix other assume o: "other \<in> set specs" and avg: "operator_of (snd other) = Some ''$avg''"
    show "\<exists>obj. group_field (obj_set g (fst entry) v) (fst other) = AccObj obj"
    proof (cases "fst other = fst entry")
      case True
      then have "other = entry" using spec_unique[OF dist mem o] by simp
      with avg that True show ?thesis by (simp add: group_field_obj_set)
    next
      case False
      with inv o avg show ?thesis
        by (auto simp: group_field_obj_set avg_fields_are_objects_def list_all_iff)
    qed
  qed
  show ?thesis
  proof (cases "operator_of (snd entry) = Some ''$avg''")
    case True
    with inv mem obtain obj where "group_field g (fst entry) = AccObj obj"
      by (auto simp: avg_fields_are_objects_def list_all_iff)
    with True keep show ?thesis by (simp add: update_accumulator_def Let_def)
  next
    case False
    with keep inv show ?thesis by (simp add: update_accumulator_def Let_def)
  qed
qed

lemma update_group_ok:
  assumes "avg_fields_are_objects specs g" and "set rest \<subseteq> set specs" and "distinct (map fst specs)"
  shows "\<exists>g1. update_group ar h rest doc g = Inr g1 \<and> avg_fields_are_objects specs g1"
  using assms
proof (induction rest arbitrary: g)
  case Nil
  then show ?case by simp
next
  case (Cons entry rest)
  from Cons.prems have "entry \<in> set specs" by simp
  from update_accumulator_ok[OF Cons.prems(1) this Cons.prems(3), of ar h doc]
  obtain g1 where u: "update_accumulator ar h g entry doc = Inr g1"
    and i: "avg_fields_are_objects specs g1" by blast
  from Cons.IH[OF i _ Cons.prems(3)] Cons.prems(2) u show ?case by simp
qed

lemma fold_init_other:
  "f \<notin> fst ` set rest \<Longrightarrow>
   group_field (fold (\<lambda>entry g. obj_set g (fst entry) (initialize_accumulator (snd entry))) rest g) f =
   group_field g f"
  by (induction rest arbitrary: g) (auto simp: group_field_obj_set)

lemma fold_init_field:
  "distinct (map fst specs) \<Longrightarrow> entry \<in> set specs \<Longrightarrow>
   group_field (fold (\<lambda>entry g. obj_set g (fst entry) (initialize_accumulator (snd entry))) specs g)
     (fst entry) = initialize_accumulator (snd entry)"
proof (induction specs arbitrary: g)
  case Nil
  then show ?case by simp
next
  case (Cons e specs)
  show ?case
  proof (cases "entry = e")
    case True
    with Cons.prems(1) have "fst entry \<notin> fst ` set specs" by auto
    from fold_init_other[OF this] True show ?thesis by (simp add: group_field_obj_set)
  next
    case False
    with Cons show ?thesis by auto
  qed
qed

lemma new_group_field:
  "distinct (map fst specs) \<Longrightarrow> entry \<in> set specs \<Longrightarrow>
   group_field (new_group specs) (fst entry) = initialize_accumulator (snd entry)"
  unfolding new_group_def by (rule fold_init_field)

lemma new_group_ok: "distinct (map fst specs) \<Longrightarrow> avg_fields_are_objects specs (new_group specs)"
  unfolding avg_fields_are_objects_def list_all_iff
  by (auto simp: new_group_field initialize_accumulator_def)

lemma group_loop_snoc:
  "group_loop ar h gr (ds @ [d]) gs =
     (case group_loop ar h gr ds gs of Inl e \<Rightarrow> Inl e | Inr gs1 \<Rightarrow> group_step ar h gr d gs1)"
  by (induction ds arbitrary: gs) (auto split: sum.splits)

lemma accumulate_snoc:
  "accumulate ar h specs (ds @ [d]) g =
     (case accumulate ar h specs ds g of Inl e \<Rightarrow> Inl e | Inr g1 \<Rightarrow> update_group ar h specs d g1)"
  by (induction ds arbitrary: g) (auto split: sum.splits)

lemma group_step_groups_of:
  assumes dist: "distinct (map fst (g_fields gr))" and inv: "groups_of ar h gr ds gs"
  shows "\<exists>gs1. group_step ar h gr d gs = Inr gs1 \<and> groups_of ar h gr (ds @ [d]) gs1"
proof -
  let ?k = "group_key h gr d"
  let ?specs = "g_fields gr"
  let ?gs0 = "if map_of gs ?k = None then map_set gs ?k (new_group ?specs) else gs"
  let ?start = "case map_of gs ?k of None \<Rightarrow> new_group ?specs | Some g \<Rightarrow> g"
  have keys: "map fst gs = first_seen (map (group_key h gr) ds)"
    using inv by (simp add: groups_of_def)
  have start: "map_of ?gs0 ?k = Some ?start"
    by (auto simp: map_of_map_set)
  have start_inv: "avg_fields_are_objects ?specs ?start"
    using inv new_group_ok[OF dist] by (auto simp: groups_of_def split: option.splits)
  have start_acc: "accumulate ar h ?specs (filter (\<lambda>x. group_key h gr x = ?k) ds) (new_group ?specs) = Inr ?start"
  proof (cases "map_of gs ?k")
    case None
    then have "?k \<notin> set (map fst gs)" by (simp add: map_of_eq_None_iff)
    then have "?k \<notin> set (map (group_key h gr) ds)" using keys by (simp add: first_seen_set)
    then have "\<forall>x\<in>set ds. group_key h gr x \<noteq> ?k" by (metis imageI set_map)
    then have "filter (\<lambda>x. group_key h gr x = ?k) ds = []"
      by (simp add: filter_empty_conv)
    with None show ?thesis by simp
  next
    case (Some g)
    with inv show ?thesis by (simp add: groups_of_def)
  qed
  from update_group_ok[OF start_inv _ dist, of ?specs ar h d]
  obtain g1 where u: "update_group ar h ?specs d ?start = Inr g1"
    and g1_inv: "avg_fields_are_objects ?specs g1" by auto
  have step: "group_step ar h gr d gs = Inr (map_set ?gs0 ?k g1)"
    using start u by (simp add: group_step_def Let_def)
  have in_keys: "?k \<in> set (map fst gs) \<longleftrightarrow> ?k \<in> set (map (group_key h gr) ds)"
    using keys by (simp add: first_seen_set)
  have keys0: "map fst ?gs0 = (if map_of gs ?k = None then map fst gs @ [?k] else map fst gs)"
    by (auto simp: keys_map_set map_of_eq_None_iff)
  have "?k \<in> set (map fst ?gs0)"
  proof (cases "map_of gs ?k = None")
    case True
    then show ?thesis unfolding keys0 by simp
  next
    case False
    then have "?k \<in> set (map fst gs)" by (metis map_of_eq_None_iff set_map)
    with False show ?thesis by auto
  qed
  then have "map fst (map_set ?gs0 ?k g1) = map fst ?gs0"
    by (simp only: keys_map_set if_True)
  also have "\<dots> = first_seen (map (group_key h gr) (ds @ [d]))"
  proof (cases "map_of gs ?k")
    case None
    then have "?k \<notin> set (map fst gs)" by (simp add: map_of_eq_None_iff)
    then have "?k \<notin> set (map (group_key h gr) ds)" using in_keys by simp
    then have "first_seen (map (group_key h gr) (ds @ [d])) = first_seen (map (group_key h gr) ds) @ [?k]"
      using first_seen_snoc[of "map (group_key h gr) ds" ?k] by simp
    with None keys keys0 show ?thesis by simp
  next
    case (Some g)
    then have "?k \<in> set (map fst gs)" by (metis map_of_eq_None_iff option.distinct(1) set_map)
    then have "?k \<in> set (map (group_key h gr) ds)" using in_keys by simp
    then have "first_seen (map (group_key h gr) (ds @ [d])) = first_seen (map (group_key h gr) ds)"
      using first_seen_snoc[of "map (group_key h gr) ds" ?k] by simp
    with Some keys keys0 show ?thesis by simp
  qed
  finally have k1: "map fst (map_set ?gs0 ?k g1) = first_seen (map (group_key h gr) (ds @ [d]))" .
  have m1: "map_of (map_set ?gs0 ?k g1) = (map_of gs)(?k \<mapsto> g1)"
    by (auto simp: map_of_map_set)
  have e1: "avg_fields_are_objects ?specs g
            \<and> accumulate ar h ?specs (filter (\<lambda>x. group_key h gr x = k) (ds @ [d])) (new_group ?specs) = Inr g"
    if "map_of (map_set ?gs0 ?k g1) k = Some g" for k g
  proof (cases "k = ?k")
    case True
    with that m1 have "g = g1" by simp
    with True g1_inv start_acc u show ?thesis by (simp add: accumulate_snoc)
  next
    case False
    with that m1 have "map_of gs k = Some g" by simp
    with inv False show ?thesis by (auto simp: groups_of_def)
  qed
  show ?thesis
    using step k1 e1 unfolding groups_of_def by blast
qed

lemma group_loop_groups_of:
  assumes "distinct (map fst (g_fields gr))"
  shows "\<exists>gs. group_loop ar h gr ds [] = Inr gs \<and> groups_of ar h gr ds gs"
proof (induction ds rule: rev_induct)
  case Nil
  show ?case by (simp add: groups_of_def first_seen_def)
next
  case (snoc d ds)
  then obtain gs where l: "group_loop ar h gr ds [] = Inr gs" and g: "groups_of ar h gr ds gs"
    by blast
  from group_step_groups_of[OF assms g, of d] l show ?case
    by (auto simp: group_loop_snoc)
qed

lemma update_accumulator_keeps_push:
  assumes "distinct (map fst specs)" and "(fld, spec) \<in> set specs"
    and "operator_of spec = Some ''$push''" and "entry \<in> set specs"
    and "update_accumulator ar h g entry doc = Inr g1"
  shows "group_field g1 fld = group_field g fld"
proof (cases "fst entry = fld")
  case True
  then have "entry = (fld, spec)" using spec_unique[OF assms(1) assms(2) assms(4)] by simp
  with assms(3,5) show ?thesis by (simp add: update_accumulator_def Let_def)
next
  case False
  with assms(5) show ?thesis
    by (auto simp: update_accumulator_def Let_def group_field_obj_set split: if_splits acc.splits)
qed

lemma update_group_keeps_push:
  assumes "distinct (map fst specs)" and "(fld, spec) \<in> set specs"
    and "operator_of spec = Some ''$push''" and "set rest \<subseteq> set specs"
    and "update_group ar h rest doc g = Inr g1"
  shows "group_field g1 fld = group_field g fld"
  using assms(4,5)
proof (induction rest arbitrary: g)
  case Nil
  then show ?case by simp
next
  case (Cons entry rest)
  from Cons.prems(2) obtain g0 where u: "update_accumulator ar h g entry doc = Inr g0"
    and r: "update_group ar h rest doc g0 = Inr g1"
    by (auto split: sum.splits)
  from Cons.prems(1) have m: "entry \<in> set specs" and sub: "set rest \<subseteq> set specs" by simp_all
  from update_accumulator_keeps_push[OF assms(1,2,3) m u] Cons.IH[OF sub r]
  show ?case by simp
qed

lemma accumulate_keeps_push:
  assumes "distinct (map fst specs)" and "(fld, spec) \<in> set specs"
    and "operator_of spec = Some ''$push''"
    and "accumulate ar h specs ds g = Inr g1"
  shows "group_field g1 fld = group_field g fld"
  using assms(4)
proof (induction ds arbitrary: g)
  case Nil
  then show ?case by simp
next
  case (Cons d ds)
  from Cons.prems obtain g0 where u: "update_group ar h specs d g = Inr g0"
    and r: "accumulate ar h specs ds g0 = Inr g1"
    by (auto split: sum.splits)
  from update_group_keeps_push[OF assms(1,2,3) _ u] Cons.IH[OF r] show ?case by simp
qed

lemma groups_nth:
  assumes "groups_of ar h gr ds gs" and "i < length gs"
  shows "fst (gs ! i) = first_seen (map (group_key h gr) ds) ! i
       \<and> accumulate ar h (g_fields gr)
            (filter (\<lambda>d. group_key h gr d = first_seen (map (group_key h gr) ds) ! i) ds)
            (new_group (g_fields gr)) = Inr (snd (gs ! i))"
proof -
  from assms(1) have keys: "map fst gs = first_seen (map (group_key h gr) ds)"
    by (simp add: groups_of_def)
  then have d: "distinct (map fst gs)" by (simp add: first_seen_distinct)
  have k: "fst (gs ! i) = first_seen (map (group_key h gr) ds) ! i"
    using keys assms(2) by (metis nth_map)
  have "gs ! i \<in> set gs" using assms(2) by simp
  then have "map_of gs (fst (gs ! i)) = Some (snd (gs ! i))"
    using d by (metis map_of_eq_Some_iff prod.collapse)
  with assms(1) k show ?thesis by (simp add: groups_of_def)
qed



text \<open>
  C3 (the code departs from the claim). \<^verbatim>\<open>_initializeAccumulator\<close> and
  \<^verbatim>\<open>_updateAccumulator\<close> have no case for \<open>$push\<close>: the field is seeded with \<^verbatim>\<open>null\<close>, not
  with an empty sequence, and no record changes it. Whatever the records are, every
  record of the output holds \<^verbatim>\<open>null\<close> in a field whose accumulator is \<open>$push\<close>. (The
  accumulator fields are the entries of the grouping other than \<^verbatim>\<open>_id\<close>: they have
  distinct names, none is named \<^verbatim>\<open>__proto__\<close>, and the paths of the grouping read no
  inherited member of the records.)
\<close>

theorem push_accumulator_stays_null:
  assumes "distinct (map fst (g_fields gr))"
    and "''_id'' \<notin> set (map fst (g_fields gr))" and "''__proto__'' \<notin> set (map fst (g_fields gr))"
    and "reads_own_properties h docs gr"
    and "(fld, spec) \<in> set (g_fields gr)" and "operator_of spec = Some ''$push''"
  shows "\<exists>rs. group ar h docs gr = Inr rs
           \<and> length rs = length (first_seen (map (group_key h gr) docs))
           \<and> (\<forall>r \<in> set rs. group_field (r_fields r) fld = AccPrim PNull)"
proof -
  from group_loop_groups_of[OF assms(1), of ar h docs]
  obtain gs where l: "group_loop ar h gr docs [] = Inr gs" and g: "groups_of ar h gr docs gs"
    by blast
  let ?rs = "map output_record gs"
  have r: "group ar h docs gr = Inr ?rs" using l by (simp add: group_def)
  have len: "length ?rs = length (first_seen (map (group_key h gr) docs))"
    using g by (metis groups_of_def length_map)
  have seed: "group_field (new_group (g_fields gr)) fld = AccPrim PNull"
    using new_group_field[OF assms(1) assms(5)] assms(6) by (simp add: initialize_accumulator_def)
  have "group_field (r_fields rec) fld = AccPrim PNull" if "rec \<in> set ?rs" for rec
  proof -
    from that obtain i where i: "i < length gs" and rec: "rec = output_record (gs ! i)"
      by (auto simp: in_set_conv_nth)
    from groups_nth[OF g i] have "accumulate ar h (g_fields gr)
            (filter (\<lambda>d. group_key h gr d = first_seen (map (group_key h gr) docs) ! i) docs)
            (new_group (g_fields gr)) = Inr (snd (gs ! i))" by simp
    from accumulate_keeps_push[OF assms(1) assms(5) assms(6) this] seed rec
    show ?thesis by (simp add: output_record_def)
  qed
  with r len show ?thesis by blast
qed

theorem push_accumulator_stays_null_witness:
  "group_data finite_arith tagged_docs
     \<lparr>g_id = Prim (PStr ''$tag''), g_fields = [(''vals'', [(''$push'', Prim (PStr ''$v''))])]\<rparr> =
   Inr [\<lparr>r_id = Prim (PStr ''a''), r_fields = [(''vals'', AccPrim PNull)]\<rparr>]"
proof -
  have h1: "distinct (map fst (g_fields
              \<lparr>g_id = Prim (PStr ''$tag''), g_fields = [(''vals'', [(''$push'', Prim (PStr ''$v''))])]\<rparr>))"
    by simp
  have h2: "''__proto__'' \<notin> set (map fst (g_fields
              \<lparr>g_id = Prim (PStr ''$tag''), g_fields = [(''vals'', [(''$push'', Prim (PStr ''$v''))])]\<rparr>))"
    by simp
  have h3: "(''vals'', [(''$push'', Prim (PStr ''$v''))]) \<in> set (g_fields
              \<lparr>g_id = Prim (PStr ''$tag''), g_fields = [(''vals'', [(''$push'', Prim (PStr ''$v''))])]\<rparr>)"
    by simp
  have h4: "operator_of [(''$push'', Prim (PStr ''$v''))] = Some ''$push''"
    by (simp add: operator_of_def)
  have v: "group_data finite_arith tagged_docs
     \<lparr>g_id = Prim (PStr ''$tag''), g_fields = [(''vals'', [(''$push'', Prim (PStr ''$v''))])]\<rparr> =
   Inr [\<lparr>r_id = Prim (PStr ''a''), r_fields = [(''vals'', AccPrim PNull)]\<rparr>]"
    by code_simp
  have h0: "''_id'' \<notin> set (map fst (g_fields
              \<lparr>g_id = Prim (PStr ''$tag''), g_fields = [(''vals'', [(''$push'', Prim (PStr ''$v''))])]\<rparr>))"
    by simp
  have h5: "reads_own_properties (fst (load_all tagged_docs [])) (snd (load_all tagged_docs []))
              \<lparr>g_id = Prim (PStr ''$tag''), g_fields = [(''vals'', [(''$push'', Prim (PStr ''$v''))])]\<rparr>"
    by code_simp
  from push_accumulator_stays_null[OF h1 h0 h2 h5 h3 h4, of finite_arith]
  show ?thesis by (simp only: v)
qed

end
